theory Spec2Isabelle
  imports
    Main
    "HOL-Library.Word"
    "HOL-Library.Char_ord"
    "HOL-Library.List_Lexorder"
    "HOL-Library.Multiset"
begin

unbundle bit_operations_syntax

section \<open>Python values\<close>

text \<open>
  A Python \<open>bytes\<close> object is a list of 8-bit words.  A Python \<open>str\<close> is represented by
  its UTF-8 encoding, a \<open>string\<close>: \<open>str.encode()\<close> is then the byte-for-byte image of the
  string, and \<open>bytes.decode()\<close> succeeds exactly on well-formed UTF-8 (strings holding lone
  surrogates are outside the model).  Python integers are unbounded: \<open>int\<close>.
\<close>

type_synonym byte = "8 word"
type_synonym bytes = "byte list"

text \<open>
  The exceptions the modelled code can raise.  \<open>OSError\<close> is an \<open>OSError\<close> of none of the
  subclasses listed before it.
\<close>

datatype error =
    FileNotFoundError
  | IsADirectoryError
  | NotADirectoryError
  | PermissionError
  | OSError
  | ZlibError
  | ValueError
  | UnicodeDecodeError
  | IndexError
  | StructError

definition encode :: "string \<Rightarrow> bytes" where
  "encode s = map of_char s"

text \<open>\<open>xs[i:]\<close>, \<open>xs[:j]\<close> and \<open>xs[i:j]\<close> for any integers, negative ones counting from the end.\<close>

definition clamp_index :: "nat \<Rightarrow> int \<Rightarrow> nat" where
  "clamp_index n i = (if i < 0 then nat (int n + i) else min (nat i) n)"

definition slice_from :: "'a list \<Rightarrow> int \<Rightarrow> 'a list" where
  "slice_from xs i = drop (clamp_index (length xs) i) xs"

definition slice :: "'a list \<Rightarrow> int \<Rightarrow> int \<Rightarrow> 'a list" where
  "slice xs i j =
     (let a = clamp_index (length xs) i; b = clamp_index (length xs) j
      in take (b - a) (drop a xs))"

text \<open>
  \<open>bs.split(sep, maxsplit=1)\<close> for a one-byte separator: the parts before and after the
  first separator, or \<open>None\<close> when there is none (the call then returns a single part).
\<close>

fun split_once :: "'a \<Rightarrow> 'a list \<Rightarrow> ('a list \<times> 'a list) option" where
  "split_once s [] = None"
| "split_once s (x # xs) =
     (if x = s then Some ([], xs)
      else case split_once s xs of None \<Rightarrow> None | Some (a, b) \<Rightarrow> Some (x # a, b))"

text \<open>\<open>bs.split(sep)\<close> for a one-byte separator: every part, empty ones included.\<close>

definition split_all :: "'a \<Rightarrow> 'a list \<Rightarrow> 'a list list" where
  "split_all s xs =
     foldr (\<lambda>x acc. if x = s then [] # acc else (x # hd acc) # tl acc) xs [[]]"

text \<open>
  \<open>bytes.decode()\<close>: strict UTF-8.  The well-formed byte sequences are those of the Unicode
  standard (no overlong form, no surrogate, nothing above U+10FFFF).
\<close>

definition cont :: "nat \<Rightarrow> bool" where
  "cont b = (0x80 \<le> b \<and> b \<le> 0xBF)"

fun utf8 :: "nat list \<Rightarrow> bool" where
  "utf8 [] = True"
| "utf8 (a # rest) =
     (if a < 0x80 then utf8 rest
      else if 0xC2 \<le> a \<and> a \<le> 0xDF then
        (case rest of b # r \<Rightarrow> cont b \<and> utf8 r | _ \<Rightarrow> False)
      else if 0xE0 \<le> a \<and> a \<le> 0xEF then
        (case rest of
           b # c # r \<Rightarrow>
             (if a = 0xE0 then 0xA0 \<le> b \<and> b \<le> 0xBF
              else if a = 0xED then 0x80 \<le> b \<and> b \<le> 0x9F
              else cont b)
             \<and> cont c \<and> utf8 r
         | _ \<Rightarrow> False)
      else if 0xF0 \<le> a \<and> a \<le> 0xF4 then
        (case rest of
           b # c # d # r \<Rightarrow>
             (if a = 0xF0 then 0x90 \<le> b \<and> b \<le> 0xBF
              else if a = 0xF4 then 0x80 \<le> b \<and> b \<le> 0x8F
              else cont b)
             \<and> cont c \<and> cont d \<and> utf8 r
         | _ \<Rightarrow> False)
      else False)"

definition decode :: "bytes \<Rightarrow> error + string" where
  "decode bs = (if utf8 (map unat bs) then Inr (map (\<lambda>b. char_of (unat b)) bs) else Inl UnicodeDecodeError)"

text \<open>
  \<open>s[:n]\<close> and \<open>s[n:]\<close> for a \<open>str\<close> count code points.  In the UTF-8 encoding a code point
  is a byte that is no continuation byte, with the continuation bytes that follow it.
\<close>

function code_points :: "string \<Rightarrow> string list" where
  "code_points [] = []"
| "code_points (c # cs) =
     (c # takeWhile (\<lambda>d. cont (of_char d)) cs) # code_points (dropWhile (\<lambda>d. cont (of_char d)) cs)"
  by pat_completeness auto
termination
  by (relation "measure length") (auto simp: length_dropWhile_le less_Suc_eq_le)

definition str_take :: "nat \<Rightarrow> string \<Rightarrow> string" where
  "str_take n s = concat (take n (code_points s))"

definition str_drop :: "nat \<Rightarrow> string \<Rightarrow> string" where
  "str_drop n s = concat (drop n (code_points s))"

text \<open>\<open>f"{n}"\<close> for a length \<open>n\<close>: its decimal digits.\<close>

fun decimal :: "nat \<Rightarrow> string" where
  "decimal n =
     (if n < 10 then [char_of (48 + n)]
      else decimal (n div 10) @ [char_of (48 + n mod 10)])"

declare decimal.simps [simp del]

text \<open>The number that a string of decimal digits denotes.\<close>

definition digits_value :: "string \<Rightarrow> nat" where
  "digits_value s = foldl (\<lambda>a c. 10 * a + (of_char c - 48)) 0 s"

text \<open>\<open>bytes.hex()\<close> and \<open>hexdigest()\<close>: two lowercase hexadecimal digits for each byte.\<close>

definition hex_digit :: "nat \<Rightarrow> char" where
  "hex_digit d = ''0123456789abcdef'' ! d"

definition hex :: "bytes \<Rightarrow> string" where
  "hex bs = concat (map (\<lambda>b. [hex_digit (unat b div 16), hex_digit (unat b mod 16)]) bs)"

text \<open>
  \<open>bytes.fromhex(s)\<close>: pairs of hexadecimal digits of either case, ASCII whitespace allowed
  before a pair; anything else raises \<open>ValueError\<close>.
\<close>

definition is_space :: "char \<Rightarrow> bool" where
  "is_space c = (c \<in> set [CHR 0x09, CHR 0x0A, CHR 0x0B, CHR 0x0C, CHR 0x0D, CHR 0x20])"

definition hex_value :: "char \<Rightarrow> nat option" where
  "hex_value c =
     (let n = of_char c :: nat in
      if 48 \<le> n \<and> n \<le> 57 then Some (n - 48)
      else if 97 \<le> n \<and> n \<le> 102 then Some (n - 87)
      else if 65 \<le> n \<and> n \<le> 70 then Some (n - 55)
      else None)"

fun fromhex :: "string \<Rightarrow> error + bytes" where
  "fromhex [] = Inr []"
| "fromhex [c] = (if is_space c then Inr [] else Inl ValueError)"
| "fromhex (c # d # cs) =
     (if is_space c then fromhex (d # cs)
      else case (hex_value c, hex_value d) of
             (Some h, Some l) \<Rightarrow>
               (case fromhex cs of
                  Inl e \<Rightarrow> Inl e
                | Inr bs \<Rightarrow> Inr (of_nat (16 * h + l) # bs))
           | _ \<Rightarrow> Inl ValueError)"

section \<open>Library functions and the file system\<close>

text \<open>
  The code calls \<open>hashlib\<close> and \<open>zlib\<close>, which are not part of the repository; they are
  parameters of the model.  \<open>sha1 L bs\<close> is the digest \<open>hashlib.sha1(bs).digest()\<close>,
  \<open>zlib_compress L bs\<close> is \<open>zlib.compress(bs, level=zlib.Z_BEST_SPEED)\<close>,
  \<open>zlib_decompress L bs\<close> is \<open>zlib.decompress(bs)\<close> with \<open>None\<close> for \<open>zlib.error\<close>, and
  \<open>zlib_decompressobj L bs\<close> is what a fresh \<open>zlib.decompressobj()\<close> gives on \<open>bs\<close>: the
  pair of \<open>dec.decompress(bs)\<close> and \<open>dec.unused_data\<close>, with \<open>None\<close> for \<open>zlib.error\<close>.
\<close>

record lib =
  sha1 :: "bytes \<Rightarrow> bytes"
  zlib_compress :: "bytes \<Rightarrow> bytes"
  zlib_decompress :: "bytes \<Rightarrow> bytes option"
  zlib_decompressobj :: "bytes \<Rightarrow> (bytes \<times> bytes) option"

text \<open>
  A path is the list of its components, as \<open>pathlib\<close> keeps them (\<open>Path.parts\<close>); an
  absolute path starts with its root, \<open>/\<close> or \<open>//\<close>.  \<open>p / s\<close> for a string \<open>s\<close> adds the
  components of \<open>s\<close>: what lies between its slashes, without the empty components and those
  that are a single dot.  A string that starts with a slash is an absolute path and takes
  the place of \<open>p\<close>; its root is \<open>//\<close> when it starts with exactly two slashes.
\<close>

type_synonym path = "string list"

definition components :: "string \<Rightarrow> string list" where
  "components s = filter (\<lambda>c. c \<noteq> [] \<and> c \<noteq> ''.'') (split_all CHR ''/'' s)"

definition joinpath :: "path \<Rightarrow> string \<Rightarrow> path" where
  "joinpath p s =
     (if take 1 s = ''/'' then
        (if take 2 s = ''//'' \<and> take 3 s \<noteq> ''///'' then ''//'' else ''/'') # components s
      else p @ components s)"

text \<open>
  The operating system is not part of the repository either: what it has at each path is
  the state of the model.  At a path there is nothing, or a regular file that can be read,
  or something that \<open>Path.read_bytes\<close> cannot read, with the exception it raises there:
  \<open>IsADirectoryError\<close> at a directory, \<open>NotADirectoryError\<close> at a path that goes through a
  regular file, \<open>PermissionError\<close>, \<open>ValueError\<close> at a path with a zero character,
  \<open>OSError\<close> at a name that is too long.  \<open>write_bytes\<close> leaves a regular file at its
  path; it and the \<open>mkdir(parents=True, exist_ok=True)\<close> before it are taken to succeed.
\<close>

datatype found = Regular bytes | Raises error

type_synonym files = "path \<Rightarrow> found option"

definition read_bytes :: "files \<Rightarrow> path \<Rightarrow> error + bytes" where
  "read_bytes fs p =
     (case fs p of
        None \<Rightarrow> Inl FileNotFoundError
      | Some (Regular bs) \<Rightarrow> Inr bs
      | Some (Raises e) \<Rightarrow> Inl e)"

section \<open>Object store\<close>

text \<open>\<open>parent / ".git" / "objects" / sha[:2] / sha[2:]\<close>\<close>

definition object_path :: "path \<Rightarrow> string \<Rightarrow> path" where
  "object_path parent sha =
     joinpath (joinpath (joinpath (joinpath parent ''.git'') ''objects'') (str_take 2 sha))
       (str_drop 2 sha)"

definition read_object :: "lib \<Rightarrow> path \<Rightarrow> string \<Rightarrow> files \<Rightarrow> error + (string \<times> bytes)" where
  "read_object L parent sha fs =
     (case read_bytes fs (object_path parent sha) of
        Inl e \<Rightarrow> Inl e
      | Inr bs \<Rightarrow>
          (case zlib_decompress L bs of
             None \<Rightarrow> Inl ZlibError
           | Some raw \<Rightarrow>
               (case split_once 0 raw of
                  None \<Rightarrow> Inl ValueError
                | Some (head, content) \<Rightarrow>
                    (case split_all 0x20 head of
                       [ty, _] \<Rightarrow>
                         (case decode ty of
                            Inl e \<Rightarrow> Inl e
                          | Inr t \<Rightarrow> Inr (t, content))
                     | _ \<Rightarrow> Inl ValueError))))"

definition header :: "string \<Rightarrow> bytes \<Rightarrow> bytes" where
  "header ty content = encode ty @ [0x20] @ encode (decimal (length content)) @ [0]"

definition write_object :: "lib \<Rightarrow> path \<Rightarrow> string \<Rightarrow> bytes \<Rightarrow> files \<Rightarrow> string \<times> files" where
  "write_object L parent ty content fs =
     (let store = header ty content @ content;
          hash = hex (sha1 L store);
          compressed = zlib_compress L store
      in (hash, fs(object_path parent hash \<mapsto> Regular compressed)))"

text \<open>What the store needs of \<open>zlib\<close>: decompressing what was compressed gives it back.\<close>

definition lossless :: "lib \<Rightarrow> bool" where
  "lossless L = (\<forall>bs. zlib_decompress L (zlib_compress L bs) = Some bs)"

section \<open>Pack entry headers\<close>

text \<open>
  The \<open>while\<close> loop shared, word for word, by \<open>next_size_type\<close> and \<open>next_size\<close>:
  \<^verbatim>\<open>while bs[i - 1] & 0b10000000:
      size += (bs[i] & 0b01111111) << off
      off += 7
      i += 1\<close>
  \<open>prev\<close> is \<open>bs[i - 1]\<close> and the list argument is \<open>bs[i:]\<close>; reading \<open>bs[i]\<close> past the end
  raises \<open>IndexError\<close>.  The result is the size and \<open>bs[i:]\<close>.
\<close>

fun size_loop :: "byte \<Rightarrow> int \<Rightarrow> nat \<Rightarrow> bytes \<Rightarrow> error + (int \<times> bytes)" where
  "size_loop prev sz off [] =
     (if prev AND 0x80 \<noteq> 0 then Inl IndexError else Inr (sz, []))"
| "size_loop prev sz off (b # bs) =
     (if prev AND 0x80 \<noteq> 0
      then size_loop b (sz + push_bit off (uint (b AND 0x7F))) (off + 7) bs
      else Inr (sz, b # bs))"

definition type_map :: "int \<Rightarrow> string option" where
  "type_map =
     [1 \<mapsto> ''commit'', 2 \<mapsto> ''tree'', 3 \<mapsto> ''blob'', 4 \<mapsto> ''tag'',
      6 \<mapsto> ''ofs_delta'', 7 \<mapsto> ''ref_delta'']"

fun next_size_type :: "bytes \<Rightarrow> error + (string \<times> int \<times> bytes)" where
  "next_size_type [] = Inl IndexError"
| "next_size_type (b0 # bs) =
     (let ty = uint (drop_bit 4 (b0 AND 0x70));
          sz = uint (b0 AND 0x0F)
      in case size_loop b0 sz 4 bs of
           Inl e \<Rightarrow> Inl e
         | Inr (sz', rest) \<Rightarrow>
             Inr (case type_map ty of Some t \<Rightarrow> t | None \<Rightarrow> ''unknown'', sz', rest))"

fun next_size :: "bytes \<Rightarrow> error + (int \<times> bytes)" where
  "next_size [] = Inl IndexError"
| "next_size (b0 # bs) = size_loop b0 (uint (b0 AND 0x7F)) 7 bs"

section \<open>Delta resolution\<close>

text \<open>
  One of the two \<open>for\<close> loops of a copy instruction, over \<open>i\<close> in \<open>idxs\<close>:
  \<^verbatim>\<open>if content[0] & (1 << (first + i)):
      acc |= content[data_ptr] << (i * 8)
      data_ptr += 1\<close>
  The list argument is \<open>content[data_ptr:]\<close>; the result is the value read and what is
  left of the list.  The offset is read with \<open>first = 0\<close> and \<open>range(4)\<close>, the size with
  \<open>first = 4\<close> and \<open>range(3)\<close>.
\<close>

fun copy_field :: "byte \<Rightarrow> nat \<Rightarrow> nat list \<Rightarrow> int \<Rightarrow> bytes \<Rightarrow> error + (int \<times> bytes)" where
  "copy_field c0 first [] acc bs = Inr (acc, bs)"
| "copy_field c0 first (i # idxs) acc bs =
     (if c0 AND push_bit (first + i) 1 \<noteq> 0 then
        (case bs of
           [] \<Rightarrow> Inl IndexError
         | b # bs' \<Rightarrow> copy_field c0 first idxs (acc OR push_bit (i * 8) (uint b)) bs')
      else copy_field c0 first idxs acc bs)"

lemma copy_field_length:
  "copy_field c0 first idxs acc bs = Inr (v, bs') \<Longrightarrow> length bs' \<le> length bs"
proof (induction idxs arbitrary: acc bs)
  case Nil
  then show ?case by simp
next
  case (Cons i idxs)
  show ?case
  proof (cases "c0 AND push_bit (first + i) 1 \<noteq> 0")
    case True
    with Cons.prems obtain b rest where bs: "bs = b # rest"
      by (cases bs) auto
    with True Cons.prems
    have "copy_field c0 first idxs (acc OR push_bit (i * 8) (uint b)) rest = Inr (v, bs')"
      by simp
    from Cons.IH [OF this] bs show ?thesis by simp
  next
    case False
    with Cons.prems have "copy_field c0 first idxs acc bs = Inr (v, bs')" by simp
    from Cons.IH [OF this] show ?thesis .
  qed
qed

text \<open>
  The loop \<open>while content:\<close> of the \<open>ref_delta\<close> branch.  A copy instruction appends
  \<open>base_content[offset:offset + size]\<close>; an insert instruction of length \<open>size = content[0]\<close>
  appends \<open>content[1:size + 1]\<close> and goes on with \<open>content[size + 1:]\<close>.
\<close>

function delta_loop :: "bytes \<Rightarrow> bytes \<Rightarrow> bytes \<Rightarrow> error + bytes" where
  "delta_loop base_content [] target_content = Inr target_content"
| "delta_loop base_content (c0 # rest) target_content =
     (if c0 AND 0x80 \<noteq> 0 then
        (case copy_field c0 0 [0..<4] 0 rest of
           Inl e \<Rightarrow> Inl e
         | Inr (offset, rest1) \<Rightarrow>
             (case copy_field c0 4 [0..<3] 0 rest1 of
                Inl e \<Rightarrow> Inl e
              | Inr (sz, rest2) \<Rightarrow>
                  delta_loop base_content rest2
                    (target_content @ slice base_content offset (offset + sz))))
      else
        delta_loop base_content (slice_from (c0 # rest) (uint c0 + 1))
          (target_content @ slice (c0 # rest) 1 (uint c0 + 1)))"
  by pat_completeness auto
termination
proof (relation "measure (\<lambda>(b, content, t). length content)")
  show "wf (measure (\<lambda>(b, content, t). length content))" by simp
next
  fix base_content target_content rest rest1 rest2 :: bytes and c0 :: byte
    and offset sz :: int and x2 x2a
  assume "copy_field c0 0 [0..<4] 0 rest = Inr x2" "(offset, rest1) = x2"
    "copy_field c0 4 [0..<3] 0 rest1 = Inr x2a" "(sz, rest2) = x2a"
  then have "length rest1 \<le> length rest" "length rest2 \<le> length rest1"
    using copy_field_length by metis+
  then show "((base_content, rest2,
               target_content @ slice base_content offset (offset + sz)),
              (base_content, c0 # rest, target_content))
             \<in> measure (\<lambda>(b, content, t). length content)"
    by simp
next
  fix base_content target_content rest :: bytes and c0 :: byte
  have nonneg: "0 \<le> uint c0" by simp
  then have "\<not> uint c0 + 1 < 0" by linarith
  moreover have "Suc 0 \<le> nat (uint c0 + 1)" using nonneg by linarith
  ultimately have "1 \<le> clamp_index (Suc (length rest)) (uint c0 + 1)"
    by (simp add: clamp_index_def)
  then show "((base_content, slice_from (c0 # rest) (uint c0 + 1),
               target_content @ slice (c0 # rest) 1 (uint c0 + 1)),
              (base_content, c0 # rest, target_content))
             \<in> measure (\<lambda>(b, content, t). length content)"
    by (simp add: slice_from_def)
qed

text \<open>
  The delta instructions as decompressed, against the base object's content: the two
  leading sizes are read with \<open>next_size\<close> and dropped, the rest runs through the loop,
  starting from \<open>target_content = b""\<close>.
\<close>

definition resolve_delta :: "bytes \<Rightarrow> bytes \<Rightarrow> error + bytes" where
  "resolve_delta base_content content =
     (case next_size content of
        Inl e \<Rightarrow> Inl e
      | Inr (_, content1) \<Rightarrow>
          (case next_size content1 of
             Inl e \<Rightarrow> Inl e
           | Inr (_, content2) \<Rightarrow> delta_loop base_content content2 []))"

text \<open>
  The end of the \<open>ref_delta\<close> branch, from the first \<open>next_size\<close> to \<open>write_object\<close>: the
  target is resolved and stored as a blob.
\<close>

definition store_delta :: "lib \<Rightarrow> path \<Rightarrow> bytes \<Rightarrow> bytes \<Rightarrow> files \<Rightarrow> error + files" where
  "store_delta L parent base_content content fs =
     (case resolve_delta base_content content of
        Inl e \<Rightarrow> Inl e
      | Inr target_content \<Rightarrow> Inr (snd (write_object L parent ''blob'' target_content fs)))"

text \<open>
  A size as \<open>next_size\<close> reads it: seven bits to a byte, the low bits first, the high bit
  of a byte set when another byte follows.
\<close>

fun size_varint :: "nat \<Rightarrow> bytes" where
  "size_varint n =
     (if n < 128 then [of_nat n] else of_nat (128 + n mod 128) # size_varint (n div 128))"

declare size_varint.simps [simp del]

section \<open>Pack entries\<close>

text \<open>
  One turn of \<open>for _ in range(n_objs)\<close>: the pack bytes and the files before, the pack
  bytes and the files after.  An entry whose type is neither one of the four object kinds
  nor \<open>ref_delta\<close> falls through both branches.
\<close>

definition unpack_entry :: "lib \<Rightarrow> path \<Rightarrow> bytes \<Rightarrow> files \<Rightarrow> error + (bytes \<times> files)" where
  "unpack_entry L parent pack_file fs =
     (case next_size_type pack_file of
        Inl e \<Rightarrow> Inl e
      | Inr (ty, _, pack_file1) \<Rightarrow>
          if ty \<in> {''commit'', ''tree'', ''blob'', ''tag''} then
            (case zlib_decompressobj L pack_file1 of
               None \<Rightarrow> Inl ZlibError
             | Some (content, unused_data) \<Rightarrow>
                 Inr (unused_data, snd (write_object L parent ty content fs)))
          else if ty = ''ref_delta'' then
            (let base_sha = hex (take 20 pack_file1);
                 pack_file2 = drop 20 pack_file1
             in case zlib_decompressobj L pack_file2 of
                  None \<Rightarrow> Inl ZlibError
                | Some (content, unused_data) \<Rightarrow>
                    (case read_object L parent base_sha fs of
                       Inl e \<Rightarrow> Inl e
                     | Inr (_, base_content) \<Rightarrow>
                         (case store_delta L parent base_content content fs of
                            Inl e \<Rightarrow> Inl e
                          | Inr fs' \<Rightarrow> Inr (unused_data, fs'))))
          else Inr (pack_file1, fs))"

fun unpack_objects :: "lib \<Rightarrow> path \<Rightarrow> nat \<Rightarrow> bytes \<Rightarrow> files \<Rightarrow> error + (bytes \<times> files)" where
  "unpack_objects L parent 0 pack_file fs = Inr (pack_file, fs)"
| "unpack_objects L parent (Suc n) pack_file fs =
     (case unpack_entry L parent pack_file fs of
        Inl e \<Rightarrow> Inl e
      | Inr (pack_file', fs') \<Rightarrow> unpack_objects L parent n pack_file' fs')"

section \<open>The fetch response\<close>














section \<open>Tree builder\<close>

text \<open>
  What the walk sees of the working directory: a file with its bytes, or \<open>None\<close> when
  reading it raises; a directory with its children as \<open>iterdir()\<close> lists them, by name; or
  a path at which \<open>is_dir()\<close> or \<open>iterdir()\<close> raises, with the exception.  Names are
  compared as Python compares the paths of one directory on a POSIX system: by code point,
  which is the order of their UTF-8 bytes.
\<close>

datatype node = File "bytes option" | Dir "(string \<times> node) list" | Failing error

type_synonym entry = "string \<times> string \<times> string"

text \<open>The children that the comprehension of \<open>toEntry\<close> leaves out.\<close>

definition skipped :: "bool \<Rightarrow> string \<Rightarrow> bool" where
  "skipped exclude_git name = ((exclude_git \<and> name = ''.git'') \<or> take 1 name = ''.'')"

text \<open>
  \<^verbatim>\<open>b"".join(m.encode() + b" " + n.encode() + b"\0" + bytes.fromhex(h)
           for m, n, h in entries)\<close>
\<close>

fun b_entries :: "entry list \<Rightarrow> error + bytes" where
  "b_entries [] = Inr []"
| "b_entries ((m, n, h) # entries) =
     (case fromhex h of
        Inl e \<Rightarrow> Inl e
      | Inr raw \<Rightarrow>
          (case b_entries entries of
             Inl e \<Rightarrow> Inl e
           | Inr bs \<Rightarrow> Inr (encode m @ [0x20] @ encode n @ [0] @ raw @ bs)))"

fun node_size :: "node \<Rightarrow> nat" where
  "node_size (File c) = 1"
| "node_size (Dir children) = Suc (sum_list (map (\<lambda>(n, c). node_size c) children))"
| "node_size (Failing e) = 1"

lemma node_size_pos: "0 < node_size nd"
  by (cases nd) auto

lemma sum_list_filter_le:
  "sum_list (map f (filter P xs)) \<le> sum_list (map (f :: 'a \<Rightarrow> nat) xs)"
  by (induction xs) auto

lemma sum_list_sort_key:
  "sum_list (map f (sort_key k xs)) = sum_list (map (f :: 'a \<Rightarrow> nat) xs)"
proof -
  have "mset (map f (sort_key k xs)) = mset (map f xs)" by simp
  then show ?thesis by (metis sum_mset_sum_list)
qed

lemma node_size_filter_sort:
  "sum_list (map (\<lambda>(n, c). node_size c) (filter P (sort_key fst children)))
   \<le> sum_list (map (\<lambda>(n, c). node_size c) children)"
  using sum_list_filter_le [of "\<lambda>(n, c). node_size c" P "sort_key fst children"]
  by (simp add: sum_list_sort_key)

text \<open>
  \<open>toEntry\<close> for the path of a node; \<open>toEntries\<close> is the list comprehension over the
  children that are kept, left to right.  Every object goes to the store under \<open>parent\<close>.
  The \<open>try\<close> around the read of a file gives the entry of forty zeros when the read
  raises; nothing catches what \<open>is_dir()\<close> or \<open>iterdir()\<close> raises.  The objects are
  written below a directory \<open>.git\<close>, which the walk leaves out wherever it is: writing
  them changes nothing of what the walk sees.
\<close>

function toEntry :: "lib \<Rightarrow> path \<Rightarrow> bool \<Rightarrow> string \<Rightarrow> node \<Rightarrow> files \<Rightarrow> error + (entry \<times> files)"
  and toEntries :: "lib \<Rightarrow> path \<Rightarrow> (string \<times> node) list \<Rightarrow> files \<Rightarrow> error + (entry list \<times> files)"
where
  "toEntry L parent exclude_git name (File None) fs =
     Inr ((''100644'', name, replicate 40 CHR ''0''), fs)"
| "toEntry L parent exclude_git name (File (Some bs)) fs =
     (case write_object L parent ''blob'' bs fs of
        (hash, fs') \<Rightarrow> Inr ((''100644'', name, hash), fs'))"
| "toEntry L parent exclude_git name (Dir children) fs =
     (case toEntries L parent
             (filter (\<lambda>child. \<not> skipped exclude_git (fst child)) (sort_key fst children)) fs of
        Inl e \<Rightarrow> Inl e
      | Inr (entries, fs1) \<Rightarrow>
          (case b_entries entries of
             Inl e \<Rightarrow> Inl e
           | Inr bs \<Rightarrow>
               (case write_object L parent ''tree'' bs fs1 of
                  (hash, fs2) \<Rightarrow> Inr ((''40000'', name, hash), fs2))))"
| "toEntry L parent exclude_git name (Failing e) fs = Inl e"
| "toEntries L parent [] fs = Inr ([], fs)"
| "toEntries L parent ((n, c) # children) fs =
     (case toEntry L parent False n c fs of
        Inl e \<Rightarrow> Inl e
      | Inr (e1, fs1) \<Rightarrow>
          (case toEntries L parent children fs1 of
             Inl e \<Rightarrow> Inl e
           | Inr (entries, fs2) \<Rightarrow> Inr (e1 # entries, fs2)))"
  by pat_completeness auto
termination
proof (relation "measure (\<lambda>x. case x of
          Inl (L, parent, eg, name, nd, fs) \<Rightarrow> 2 * node_size nd
        | Inr (L, parent, children, fs) \<Rightarrow>
            Suc (2 * sum_list (map (\<lambda>(n, c). node_size c) children)))")
  show "wf (measure (\<lambda>x. case x of
          Inl (L, parent, eg, name, nd, fs) \<Rightarrow> 2 * node_size nd
        | Inr (L :: lib, parent :: path, children, fs :: files) \<Rightarrow>
            Suc (2 * sum_list (map (\<lambda>(n :: string, c). node_size c) children))))"
    by simp
next
  fix L :: lib and parent :: path and exclude_git :: bool and name :: string
    and children :: "(string \<times> node) list" and fs :: files
  show "(Inr (L, parent,
              filter (\<lambda>child. \<not> skipped exclude_git (fst child)) (sort_key fst children), fs),
         Inl (L, parent, exclude_git, name, Dir children, fs))
        \<in> measure (\<lambda>x. case x of
          Inl (L, parent, eg, name, nd, fs) \<Rightarrow> 2 * node_size nd
        | Inr (L, parent, children, fs) \<Rightarrow>
            Suc (2 * sum_list (map (\<lambda>(n, c). node_size c) children)))"
    using node_size_filter_sort
      [of "\<lambda>child. \<not> skipped exclude_git (fst child)" children]
    by simp
next
  fix L :: lib and parent :: path and n :: string and c :: node
    and children :: "(string \<times> node) list" and fs :: files
  show "(Inl (L, parent, False, n, c, fs), Inr (L, parent, (n, c) # children, fs))
        \<in> measure (\<lambda>x. case x of
          Inl (L, parent, eg, name, nd, fs) \<Rightarrow> 2 * node_size nd
        | Inr (L, parent, children, fs) \<Rightarrow>
            Suc (2 * sum_list (map (\<lambda>(n, c). node_size c) children)))"
    by simp
next
  fix L :: lib and parent :: path and n :: string and c :: node
    and children :: "(string \<times> node) list" and fs fs1 :: files and x2 e1
  show "(Inr (L, parent, children, fs1), Inr (L, parent, (n, c) # children, fs))
        \<in> measure (\<lambda>x. case x of
          Inl (L, parent, eg, name, nd, fs) \<Rightarrow> 2 * node_size nd
        | Inr (L, parent, children, fs) \<Rightarrow>
            Suc (2 * sum_list (map (\<lambda>(n, c). node_size c) children)))"
    using node_size_pos [of c] by simp
qed

text \<open>
  \<open>write_tree\<close>: the entry of the current directory, with \<open>.git\<close> left out at the top;
  \<open>cwd_name\<close> and \<open>cwd\<close> are the name and the content of \<open>Path(".").absolute()\<close>.
\<close>

definition write_tree :: "lib \<Rightarrow> path \<Rightarrow> string \<Rightarrow> node \<Rightarrow> files \<Rightarrow> error + (string \<times> files)" where
  "write_tree L parent cwd_name cwd fs =
     (case toEntry L parent True cwd_name cwd fs of
        Inl e \<Rightarrow> Inl e
      | Inr ((_, _, tree_hash), fs') \<Rightarrow> Inr (tree_hash, fs'))"

text \<open>
  The tree build as the specification words it.  The entries of a directory are its
  children without those whose name starts with a dot and without the repository metadata
  directory \<open>.git\<close>, ordered by name.  An entry is serialized as its mode, a space, its
  name, a zero byte and the 20 bytes of its digest.  The digest of a file is that of its
  blob object, or 20 zero bytes when the file cannot be read; the digest of a directory is
  that of the tree object made of its serialized entries.
\<close>

definition visible :: "string \<Rightarrow> bool" where
  "visible name = (take 1 name \<noteq> ''.'' \<and> name \<noteq> ''.git'')"

definition tree_entries :: "(string \<times> node) list \<Rightarrow> (string \<times> node) list" where
  "tree_entries children = sort_key fst (filter (\<lambda>child. visible (fst child)) children)"

definition mode_of :: "node \<Rightarrow> string" where
  "mode_of nd = (case nd of Dir children \<Rightarrow> ''40000'' | _ \<Rightarrow> ''100644'')"

lemma tree_entries_size:
  "(n, c) \<in> set (tree_entries children) \<Longrightarrow>
   size c < Suc (size_list (size_prod (\<lambda>_. 0) size) children)"
proof -
  assume "(n, c) \<in> set (tree_entries children)"
  then have "(n, c) \<in> set children" by (simp add: tree_entries_def)
  then have "size_prod (\<lambda>_. 0) size (n, c) \<le> size_list (size_prod (\<lambda>_. 0) size) children"
    by (rule size_list_estimation') simp
  then show ?thesis by simp
qed

text \<open>
  A node can be walked when no exception stops the walk: neither the node nor any entry
  below it is a path at which \<open>is_dir()\<close> or \<open>iterdir()\<close> raises.
\<close>

function walkable :: "node \<Rightarrow> bool" where
  "walkable (File c) = True"
| "walkable (Dir children) = (\<forall>(n, c) \<in> set (tree_entries children). walkable c)"
| "walkable (Failing e) = False"
  by pat_completeness auto
termination
  by (relation "measure size") (auto dest: tree_entries_size)

text \<open>The digest of a node that can be walked.\<close>

function build_digest :: "lib \<Rightarrow> node \<Rightarrow> bytes" where
  "build_digest L (File None) = replicate 20 0"
| "build_digest L (File (Some bs)) = sha1 L (header ''blob'' bs @ bs)"
| "build_digest L (Dir children) =
     (let body = concat (map (\<lambda>(n, c). encode (mode_of c) @ [0x20] @ encode n @ [0]
                                       @ build_digest L c)
                          (tree_entries children))
      in sha1 L (header ''tree'' body @ body))"
| "build_digest L (Failing e) = []"
  by pat_completeness auto
termination
  by (relation "measure (\<lambda>(L, nd). size nd)") (auto dest: tree_entries_size)

definition entry_of :: "lib \<Rightarrow> string \<times> node \<Rightarrow> entry" where
  "entry_of L child = (mode_of (snd child), fst child, hex (build_digest L (snd child)))"

definition entry_bytes :: "lib \<Rightarrow> string \<times> node \<Rightarrow> bytes" where
  "entry_bytes L child =
     encode (mode_of (snd child)) @ [0x20] @ encode (fst child) @ [0] @ build_digest L (snd child)"

section \<open>A library instance\<close>

text \<open>
  SHA-1 as \<open>hashlib\<close> computes it (FIPS 180-4): the message is padded to a multiple of
  64 bytes, and each block of 16 big-endian words is expanded to 80 words and folded into
  the five words of the state.
\<close>

type_synonym word32 = "32 word"

definition be32 :: "bytes \<Rightarrow> word32" where
  "be32 bs = foldl (\<lambda>acc b. push_bit 8 acc OR ucast b) 0 bs"

definition be_bytes :: "nat \<Rightarrow> 'a::len word \<Rightarrow> bytes" where
  "be_bytes k w = map (\<lambda>i. ucast (drop_bit (8 * (k - 1 - i)) w)) [0..<k]"

definition sha1_pad :: "bytes \<Rightarrow> bytes" where
  "sha1_pad m =
     m @ [0x80] @ replicate ((119 - length m mod 64) mod 64) 0
       @ be_bytes 8 (of_nat (8 * length m) :: 64 word)"

fun chunks :: "nat \<Rightarrow> 'a list \<Rightarrow> 'a list list" where
  "chunks n xs = (if n = 0 \<or> xs = [] then [] else take n xs # chunks n (drop n xs))"

declare chunks.simps [simp del]

definition schedule :: "bytes \<Rightarrow> word32 list" where
  "schedule block =
     foldl (\<lambda>w t. w @ [word_rotl 1
                          (w ! (t - 3) XOR w ! (t - 8) XOR w ! (t - 14) XOR w ! (t - 16))])
       (map be32 (chunks 4 block)) [16..<80]"

type_synonym sha1_state = "word32 \<times> word32 \<times> word32 \<times> word32 \<times> word32"

definition sha1_round :: "word32 list \<Rightarrow> sha1_state \<Rightarrow> nat \<Rightarrow> sha1_state" where
  "sha1_round w st t =
     (case st of (a, b, c, d, e) \<Rightarrow>
        let (f, k) =
              (if t < 20 then ((b AND c) OR (NOT b AND d), 0x5A827999)
               else if t < 40 then (b XOR c XOR d, 0x6ED9EBA1)
               else if t < 60 then ((b AND c) OR (b AND d) OR (c AND d), 0x8F1BBCDC)
               else (b XOR c XOR d, 0xCA62C1D6))
        in (word_rotl 5 a + f + e + k + w ! t, a, word_rotl 30 b, c, d))"

definition sha1_block :: "sha1_state \<Rightarrow> bytes \<Rightarrow> sha1_state" where
  "sha1_block st block =
     (case (st, foldl (sha1_round (schedule block)) st [0..<80]) of
        ((h0, h1, h2, h3, h4), (a, b, c, d, e)) \<Rightarrow> (h0 + a, h1 + b, h2 + c, h3 + d, h4 + e))"

definition sha1_digest :: "bytes \<Rightarrow> bytes" where
  "sha1_digest m =
     (case foldl sha1_block (0x67452301, 0xEFCDAB89, 0x98BADCFE, 0x10325476, 0xC3D2E1F0)
             (chunks 64 (sha1_pad m)) of
        (h0, h1, h2, h3, h4) \<Rightarrow> concat (map (be_bytes 4) [h0, h1, h2, h3, h4]))"

text \<open>
  A \<open>zlib\<close> codec that writes stored (uncompressed) DEFLATE blocks: the two header
  bytes, blocks of at most 65535 bytes, each with its length and the length's complement,
  and the Adler-32 checksum of the data.  Its streams are valid \<open>zlib\<close> streams, though
  not the ones \<open>zlib.compress\<close> writes at \<open>Z_BEST_SPEED\<close>.  Reading takes streams of
  stored blocks only; \<open>Partial\<close> is a stream that ends early, whose data so far a
  decompression object hands out while \<open>zlib.decompress\<close> raises.
\<close>

definition adler32 :: "bytes \<Rightarrow> word32" where
  "adler32 bs =
     (case foldl (\<lambda>(a, b) x. let a' = (a + unat x) mod 65521 in (a', (b + a') mod 65521))
             (1, 0) bs of
        (a, b) \<Rightarrow> of_nat (b * 65536 + a))"

definition le16 :: "nat \<Rightarrow> bytes" where
  "le16 n = [of_nat (n mod 256), of_nat (n div 256)]"

fun stored_blocks :: "bytes \<Rightarrow> bytes" where
  "stored_blocks bs =
     (if length bs \<le> 65535
      then 0x01 # le16 (length bs) @ le16 (65535 - length bs) @ bs
      else 0x00 # le16 65535 @ le16 0 @ take 65535 bs @ stored_blocks (drop 65535 bs))"

declare stored_blocks.simps [simp del]

definition deflate_stored :: "bytes \<Rightarrow> bytes" where
  "deflate_stored bs = [0x78, 0x01] @ stored_blocks bs @ be_bytes 4 (adler32 bs)"

datatype inflated = Done bytes bytes | Partial bytes | Bad

fun inflate_stored :: "bytes \<Rightarrow> inflated" where
  "inflate_stored [] = Partial []"
| "inflate_stored (h # rest) =
     (if h AND 0x06 \<noteq> 0 then Bad
      else case rest of
             l0 # l1 # n0 # n1 # body \<Rightarrow>
               (let len = unat l0 + 256 * unat l1; nlen = unat n0 + 256 * unat n1
                in if len + nlen \<noteq> 65535 then Bad
                   else if length body < len then Partial body
                   else if h AND 0x01 \<noteq> 0 then Done (take len body) (drop len body)
                   else (case inflate_stored (drop len body) of
                           Done d r \<Rightarrow> Done (take len body @ d) r
                         | Partial d \<Rightarrow> Partial (take len body @ d)
                         | Bad \<Rightarrow> Bad))
           | _ \<Rightarrow> Partial [])"

definition inflate :: "bytes \<Rightarrow> inflated" where
  "inflate bs =
     (case bs of
        cmf # flg # rest \<Rightarrow>
          if cmf AND 0x0F \<noteq> 8 \<or> 7 < drop_bit 4 cmf
             \<or> (unat cmf * 256 + unat flg) mod 31 \<noteq> 0 \<or> flg AND 0x20 \<noteq> 0
          then Bad
          else (case inflate_stored rest of
                  Done d r \<Rightarrow>
                    if length r < 4 then Partial d
                    else if take 4 r = be_bytes 4 (adler32 d) then Done d (drop 4 r)
                    else Bad
                | Partial d \<Rightarrow> Partial d
                | Bad \<Rightarrow> Bad)
      | _ \<Rightarrow> Partial [])"

definition stored_decompress :: "bytes \<Rightarrow> bytes option" where
  "stored_decompress bs = (case inflate bs of Done d r \<Rightarrow> Some d | _ \<Rightarrow> None)"

definition stored_decompressobj :: "bytes \<Rightarrow> (bytes \<times> bytes) option" where
  "stored_decompressobj bs =
     (case inflate bs of Done d r \<Rightarrow> Some (d, r) | Partial d \<Rightarrow> Some (d, []) | Bad \<Rightarrow> None)"

text \<open>The instance: SHA-1 and the stored codec.\<close>

definition stored_lib :: lib where
  "stored_lib =
     \<lparr>sha1 = sha1_digest, zlib_compress = deflate_stored,
      zlib_decompress = stored_decompress, zlib_decompressobj = stored_decompressobj\<rparr>"

section \<open>A file system instance\<close>

text \<open>
  A file system of directories and regular files, without links and without permissions,
  as POSIX resolves a path in it.  \<open>resolve root cur p\<close> walks the components of \<open>p\<close> from
  the directory \<open>cur\<close>, given by its names from the root: every step needs a directory to
  step from, \<open>..\<close> steps to the directory above, and a name of more than 255 bytes is too
  long.  \<open>posix root cwd\<close> is what Python then finds at a path: \<open>open\<close> refuses a path with
  a zero character before the system is asked, and the system refuses a path of more than
  4095 bytes; \<open>fspath p\<close> is the path as a string.
\<close>

datatype inode = Reg bytes | Folder "(string \<times> inode) list"

fun lookup :: "inode \<Rightarrow> string list \<Rightarrow> inode option" where
  "lookup nd [] = Some nd"
| "lookup (Reg bs) (n # ns) = None"
| "lookup (Folder es) (n # ns) = (case map_of es n of None \<Rightarrow> None | Some c \<Rightarrow> lookup c ns)"

fun resolve :: "inode \<Rightarrow> string list \<Rightarrow> path \<Rightarrow> found option" where
  "resolve root cur [] =
     (case lookup root cur of
        None \<Rightarrow> None
      | Some (Reg bs) \<Rightarrow> Some (Regular bs)
      | Some (Folder es) \<Rightarrow> Some (Raises IsADirectoryError))"
| "resolve root cur (c # cs) =
     (case lookup root cur of
        None \<Rightarrow> None
      | Some (Reg bs) \<Rightarrow> Some (Raises NotADirectoryError)
      | Some (Folder es) \<Rightarrow>
          if c = ''..'' then resolve root (butlast cur) cs
          else if 255 < length c then Some (Raises OSError)
          else resolve root (cur @ [c]) cs)"

fun join_slash :: "string list \<Rightarrow> string" where
  "join_slash [] = []"
| "join_slash [c] = c"
| "join_slash (c # d # cs) = c @ ''/'' @ join_slash (d # cs)"

definition is_root :: "string \<Rightarrow> bool" where
  "is_root c = (c = ''/'' \<or> c = ''//'')"

definition fspath :: "path \<Rightarrow> string" where
  "fspath p =
     (case p of
        [] \<Rightarrow> ''.''
      | c # cs \<Rightarrow> if is_root c then c @ join_slash cs else join_slash p)"

definition posix :: "inode \<Rightarrow> string list \<Rightarrow> files" where
  "posix root cwd p =
     (if CHR 0x00 \<in> set (fspath p) then Some (Raises ValueError)
      else if 4095 < length (fspath p) then Some (Raises OSError)
      else case p of
             [] \<Rightarrow> resolve root cwd p
           | c # cs \<Rightarrow> if is_root c then resolve root [] cs else resolve root cwd p)"

text \<open>
  A repository \<open>repo\<close> in the current directory, holding one object file, \<open>ab/cdef\<close>: the
  \<open>zlib\<close> stream of \<open>blob xyz\<close>, a zero byte and \<open>hi\<close>.
\<close>

definition one_object :: inode where
  "one_object =
     Folder [(''repo'', Folder [(''.git'', Folder [(''objects'', Folder [(''ab'', Folder
       [(''cdef'', Reg [120, 1, 1, 11, 0, 244, 255, 98, 108, 111, 98, 32, 120, 121, 122, 0,
                        104, 105, 24, 158, 3, 252])])])])])]"

section \<open>Splitting, decoding and decimal digits\<close>

lemma split_once_eq:
  "split_once s xs =
     (if s \<in> set xs then Some (takeWhile (\<lambda>x. x \<noteq> s) xs, tl (dropWhile (\<lambda>x. x \<noteq> s) xs)) else None)"
  by (induction xs) auto

lemma split_all_nonempty: "split_all s xs \<noteq> []"
  by (induction xs) (auto simp: split_all_def)

lemma split_all_Cons:
  "split_all s (x # xs) =
     (if x = s then [] # split_all s xs else (x # hd (split_all s xs)) # tl (split_all s xs))"
  by (simp add: split_all_def)

lemma split_all_Nil: "split_all s [] = [[]]"
  by (simp add: split_all_def)

lemma length_split_all: "length (split_all s xs) = Suc (count_list xs s)"
  using split_all_nonempty [of s]
  by (induction xs) (auto simp: split_all_Cons split_all_Nil)

lemma split_all_none: "s \<notin> set xs \<Longrightarrow> split_all s xs = [xs]"
  by (induction xs) (auto simp: split_all_Cons split_all_Nil)

lemma split_all_one:
  "count_list xs s = 1 \<Longrightarrow>
   split_all s xs = [takeWhile (\<lambda>x. x \<noteq> s) xs, tl (dropWhile (\<lambda>x. x \<noteq> s) xs)]"
proof (induction xs)
  case Nil
  then show ?case by simp
next
  case (Cons x xs)
  show ?case
  proof (cases "x = s")
    case True
    with Cons.prems have "count_list xs s = 0" by simp
    then have "s \<notin> set xs" by (simp add: count_list_0_iff)
    with True show ?thesis by (simp add: split_all_Cons split_all_none)
  next
    case False
    with Cons.prems have "count_list xs s = 1" by simp
    from Cons.IH [OF this] False show ?thesis by (simp add: split_all_Cons)
  qed
qed

lemma split_all_two_iff:
  "(\<exists>a b. split_all s xs = [a, b]) \<longleftrightarrow> count_list xs s = 1"
proof
  assume "\<exists>a b. split_all s xs = [a, b]"
  then have "length (split_all s xs) = 2" by auto
  then show "count_list xs s = 1" by (simp add: length_split_all)
next
  assume "count_list xs s = 1"
  then show "\<exists>a b. split_all s xs = [a, b]" by (simp add: split_all_one)
qed

lemma unat_of_char: "unat (of_char c :: byte) = of_char c"
proof -
  have "(of_char c :: byte) = of_nat (of_char c)" by (simp add: of_nat_of_char)
  then have "unat (of_char c :: byte) = (of_char c :: nat) mod 256"
    by (simp add: unat_of_nat)
  moreover have "(of_char c :: nat) < 256" by simp
  ultimately show ?thesis by simp
qed

lemma decimal_digits: "c \<in> set (decimal n) \<Longrightarrow> 48 \<le> (of_char c :: nat) \<and> (of_char c :: nat) \<le> 57"
proof (induction n rule: decimal.induct)
  case (1 n)
  show ?case
  proof (cases "n < 10")
    case True
    with "1.prems" have "c = char_of (48 + n)" by (simp add: decimal.simps [of n])
    with True show ?thesis by simp
  next
    case False
    with "1.prems" have "c \<in> set (decimal (n div 10)) \<or> c = char_of (48 + n mod 10)"
      by (auto simp: decimal.simps [of n])
    then show ?thesis
    proof
      assume "c \<in> set (decimal (n div 10))"
      with "1.IH" False show ?thesis by simp
    next
      assume "c = char_of (48 + n mod 10)"
      moreover have "n mod 10 < 10" by simp
      ultimately show ?thesis by simp
    qed
  qed
qed

lemma encode_decimal_no_sep:
  "0 \<notin> set (encode (decimal n))" "0x20 \<notin> set (encode (decimal n))"
proof -
  have "b \<in> set (encode (decimal n)) \<Longrightarrow> 48 \<le> unat b" for b
    using decimal_digits by (auto simp: encode_def unat_of_char)
  then show "0 \<notin> set (encode (decimal n))" "0x20 \<notin> set (encode (decimal n))"
    by fastforce+
qed

lemma decode_encode:
  "utf8 (map of_char s) \<Longrightarrow> decode (encode s) = Inr s"
proof -
  assume "utf8 (map of_char s)"
  moreover have "map unat (encode s) = map of_char s"
    by (simp add: encode_def unat_of_char)
  moreover have "map (\<lambda>b. char_of (unat b)) (encode s) = s"
    by (simp add: encode_def unat_of_char comp_def)
  ultimately show ?thesis by (simp add: decode_def)
qed

lemma kind_encode:
  assumes "kind \<in> {''commit'', ''tree'', ''blob'', ''tag''}"
  shows "0 \<notin> set (encode kind)" "0x20 \<notin> set (encode kind)" "decode (encode kind) = Inr kind"
proof -
  from assms show "0 \<notin> set (encode kind)" by (auto simp: encode_def)
  from assms show "0x20 \<notin> set (encode kind)" by (auto simp: encode_def)
  from assms have "utf8 (map of_char kind)" by auto
  then show "decode (encode kind) = Inr kind" by (rule decode_encode)
qed

section \<open>Reading an object, case by case\<close>

lemma read_object_eq:
  "read_object L parent sha fs =
     (case read_bytes fs (object_path parent sha) of
        Inl e \<Rightarrow> Inl e
      | Inr bs \<Rightarrow>
          (case zlib_decompress L bs of
             None \<Rightarrow> Inl ZlibError
           | Some raw \<Rightarrow>
               (let head = takeWhile (\<lambda>b. b \<noteq> 0) raw;
                    content = tl (dropWhile (\<lambda>b. b \<noteq> 0) raw);
                    ty = takeWhile (\<lambda>b. b \<noteq> 0x20) head
                in if 0 \<notin> set raw then Inl ValueError
                   else if count_list head 0x20 \<noteq> 1 then Inl ValueError
                   else if \<not> utf8 (map unat ty) then Inl UnicodeDecodeError
                   else Inr (map (\<lambda>b. char_of (unat b)) ty, content))))"
proof (cases "read_bytes fs (object_path parent sha)")
  case (Inl e)
  then show ?thesis by (simp add: read_object_def)
next
  case Some: (Inr bs)
  show ?thesis
  proof (cases "zlib_decompress L bs")
    case None
    with Some show ?thesis by (simp add: read_object_def)
  next
    case raw: (Some raw)
    show ?thesis
    proof (cases "0 \<in> set raw")
      case False
      with Some raw show ?thesis by (simp add: read_object_def split_once_eq)
    next
      case nul: True
      let ?head = "takeWhile (\<lambda>b. b \<noteq> 0) raw"
      show ?thesis
      proof (cases "count_list ?head 0x20 = 1")
        case True
        with Some raw nul show ?thesis
          by (simp add: read_object_def split_once_eq split_all_one decode_def Let_def)
      next
        case False
        then have "\<not> (\<exists>a b. split_all 0x20 ?head = [a, b])"
          by (simp add: split_all_two_iff)
        then have "(case split_all 0x20 ?head of
                      [ty, _] \<Rightarrow> (case decode ty of Inl e \<Rightarrow> Inl e | Inr t \<Rightarrow> Inr (t, c))
                    | _ \<Rightarrow> Inl ValueError) = Inl ValueError" for c :: bytes
          by (auto split: list.splits)
        with Some raw nul False show ?thesis
          by (simp add: read_object_def split_once_eq Let_def)
      qed
    qed
  qed
qed

lemma takeWhile_sep: "s \<notin> set a \<Longrightarrow> takeWhile (\<lambda>x. x \<noteq> s) (a @ s # b) = a"
  by (induction a) auto

lemma dropWhile_sep: "s \<notin> set a \<Longrightarrow> dropWhile (\<lambda>x. x \<noteq> s) (a @ s # b) = s # b"
  by (induction a) auto

lemma count_list_append: "count_list (a @ b) s = count_list a s + count_list b s"
  by (induction a) auto

lemma count_list_none: "s \<notin> set a \<Longrightarrow> count_list a s = 0"
  by (simp add: count_list_0_iff)

lemma read_stored:
  assumes fs: "read_bytes fs (object_path parent sha) = Inr bs"
    and dec: "zlib_decompress L bs = Some (header kind content @ content)"
    and kind: "kind \<in> {''commit'', ''tree'', ''blob'', ''tag''}"
  shows "read_object L parent sha fs = Inr (kind, content)"
proof -
  let ?n = "encode (decimal (length content))"
  let ?head = "encode kind @ 0x20 # ?n"
  have raw: "header kind content @ content = ?head @ 0 # content"
    by (simp add: header_def)
  have no0: "0 \<notin> set ?head"
    using kind_encode(1) [OF kind] encode_decimal_no_sep(1) by simp
  have head: "takeWhile (\<lambda>b. b \<noteq> 0) (?head @ 0 # content) = ?head"
    using no0 by (rule takeWhile_sep)
  have content: "tl (dropWhile (\<lambda>b. b \<noteq> 0) (?head @ 0 # content)) = content"
    using dropWhile_sep [OF no0] by simp
  have cnt: "count_list ?head 0x20 = 1"
    using kind_encode(2) [OF kind] encode_decimal_no_sep(2)
    by (simp add: count_list_append count_list_none)
  have ty: "takeWhile (\<lambda>b. b \<noteq> 0x20) ?head = encode kind"
    using kind_encode(2) [OF kind] by (rule takeWhile_sep)
  have dec_ty: "utf8 (map unat (encode kind))"
       "map (\<lambda>b. char_of (unat b)) (encode kind) = kind"
    using kind_encode(3) [OF kind] by (auto simp: decode_def split: if_splits)
  have "0 \<in> set (?head @ 0 # content)" by simp
  with fs dec raw head content cnt ty dec_ty show ?thesis
    by (simp add: read_object_eq Let_def del: set_append)
qed

section \<open>The stored codec is lossless\<close>

lemma le16_decode:
  "n \<le> 65535 \<Longrightarrow> unat (of_nat (n mod 256) :: byte) + 256 * unat (of_nat (n div 256) :: byte) = n"
  by (simp add: unat_of_nat)

lemma inflate_stored_blocks: "inflate_stored (stored_blocks bs @ r) = Done bs r"
proof (induction bs rule: stored_blocks.induct)
  case (1 bs)
  show ?case
  proof (cases "length bs \<le> 65535")
    case True
    then have "65535 - length bs \<le> 65535" by simp
    with True show ?thesis
      by (simp add: stored_blocks.simps [of bs] le16_def le16_decode unat_of_nat)
  next
    case False
    with "1.IH" have "inflate_stored (stored_blocks (drop 65535 bs) @ r) = Done (drop 65535 bs) r"
      by simp
    with False show ?thesis
      by (simp add: stored_blocks.simps [of bs] le16_def unat_of_nat)
  qed
qed

lemma length_be_bytes: "length (be_bytes k w) = k"
  by (simp add: be_bytes_def)

lemma inflate_deflate: "inflate (deflate_stored bs @ r) = Done bs r"
  by (simp add: inflate_def deflate_stored_def inflate_stored_blocks length_be_bytes)


lemma lossless_stored_lib: "lossless stored_lib"
  by (simp add: lossless_def stored_lib_def stored_decompress_def
        inflate_deflate [of _ "[]", simplified])

section \<open>Object store round trip\<close>

text \<open>
  C1.  For each of the kinds \<open>commit\<close>, \<open>tree\<close>, \<open>blob\<close> and \<open>tag\<close> and any content,
  reading the hash that \<open>write_object\<close> returns, from the files it leaves, gives back the
  kind and the content, provided \<open>zlib\<close> decompresses what it compressed.
\<close>

theorem object_round_trip:
  assumes "lossless L" and "kind \<in> {''commit'', ''tree'', ''blob'', ''tag''}"
  shows "read_object L parent (fst (write_object L parent kind content fs))
           (snd (write_object L parent kind content fs)) = Inr (kind, content)"
proof -
  let ?store = "header kind content @ content"
  let ?hash = "hex (sha1 L ?store)"
  have w: "write_object L parent kind content fs
           = (?hash, fs(object_path parent ?hash \<mapsto> Regular (zlib_compress L ?store)))"
    by (simp add: write_object_def Let_def)
  have "read_bytes (fs(object_path parent ?hash \<mapsto> Regular (zlib_compress L ?store)))
          (object_path parent ?hash)
        = Inr (zlib_compress L ?store)" by (simp add: read_bytes_def)
  moreover from assms(1) have "zlib_decompress L (zlib_compress L ?store) = Some ?store"
    by (simp add: lossless_def)
  ultimately show ?thesis
    unfolding w fst_conv snd_conv using assms(2) by (rule read_stored)
qed


theorem object_round_trip_witness:
  "lossless stored_lib \<and> ''blob'' \<in> {''commit'', ''tree'', ''blob'', ''tag''}
   \<and> read_object stored_lib [''repo'']
         (fst (write_object stored_lib [''repo''] ''blob'' (encode ''hello world'') Map.empty))
         (snd (write_object stored_lib [''repo''] ''blob'' (encode ''hello world'') Map.empty))
       = Inr (''blob'', encode ''hello world'')"
  using object_round_trip [of stored_lib "''blob''" "[''repo'']" "encode ''hello world''" Map.empty]
    lossless_stored_lib
  by simp

section \<open>Pack entry header test vector\<close>

text \<open>
  C7.  Decoding the two bytes \<open>0x9C 0x03\<close> with the pack entry-header decoder gives the
  kind \<open>commit\<close> and the size 60, which is the low nibble \<open>0xC\<close> of the first byte plus the
  seven bits of the continuation byte shifted left by four; no byte is left over.
\<close>

theorem next_size_type_vector:
  "next_size_type [0x9C, 0x03] = Inr (''commit'', 60, [])
   \<and> (60 :: int) = uint ((0x9C :: byte) AND 0x0F) + push_bit 4 (uint ((0x03 :: byte) AND 0x7F))
   \<and> push_bit 4 (uint ((0x03 :: byte) AND 0x7F)) = (48 :: int)"
  by (simp add: type_map_def)

section \<open>Hash identity\<close>

lemma digits_value_decimal: "digits_value (decimal n) = n"
proof (induction n rule: decimal.induct)
  case (1 n)
  show ?case
  proof (cases "n < 10")
    case True
    then show ?thesis by (simp add: decimal.simps [of n] digits_value_def)
  next
    case False
    with "1.IH" have "digits_value (decimal (n div 10)) = n div 10" by simp
    moreover have "n mod 10 < 10" by simp
    ultimately show ?thesis using False
      by (simp add: decimal.simps [of n] digits_value_def)
  qed
qed

lemma hex_digit_lower: "d < 16 \<Longrightarrow> hex_digit d \<in> set ''0123456789abcdef''"
proof -
  assume "d < 16"
  then have "d < length ''0123456789abcdef''" by simp
  then show ?thesis unfolding hex_digit_def by (rule nth_mem)
qed

lemma hex_lower: "set (hex bs) \<subseteq> set ''0123456789abcdef''"
proof
  fix c
  assume "c \<in> set (hex bs)"
  then obtain b :: byte
    where "c = hex_digit (unat b div 16) \<or> c = hex_digit (unat b mod 16)"
    by (auto simp: hex_def)
  moreover have "unat b < 2 ^ LENGTH(8)" by (rule unsigned_less)
  then have "unat b div 16 < 16" by simp
  moreover have "unat b mod 16 < 16" by simp
  ultimately show "c \<in> set ''0123456789abcdef''"
    using hex_digit_lower by blast
qed

lemma length_hex: "length (hex bs) = 2 * length bs"
  by (induction bs) (simp_all add: hex_def)

text \<open>
  C2.  \<open>write_object\<close> returns the SHA-1 digest, in lowercase hexadecimal digits, of the
  kind, a space, the decimal length of the content, a zero byte and the content.  The files
  and the directory have no part in it: two writes of the same kind and content, anywhere,
  return the same hash.
\<close>

theorem write_object_hash:
  "fst (write_object L parent kind content fs)
     = hex (sha1 L (encode kind @ [0x20] @ encode (decimal (length content)) @ [0] @ content))
   \<and> digits_value (decimal (length content)) = length content
   \<and> set (fst (write_object L parent kind content fs)) \<subseteq> set ''0123456789abcdef''
   \<and> fst (write_object L parent kind content fs) = fst (write_object L parent' kind content fs')"
  by (simp add: write_object_def header_def Let_def digits_value_decimal hex_lower
        del: list.set)

section \<open>What reading an object checks\<close>

lemma stored_decompress_blob_xyz:
  "stored_decompress
     [120, 1, 1, 11, 0, 244, 255, 98, 108, 111, 98, 32, 120, 121, 122, 0, 104, 105,
      24, 158, 3, 252]
   = Some [98, 108, 111, 98, 32, 120, 121, 122, 0, 104, 105]"
  by (simp add: stored_decompress_def inflate_def adler32_def be_bytes_def upt_rec)

lemma stored_decompress_foo_2:
  "stored_decompress
     [120, 1, 1, 8, 0, 247, 255, 102, 111, 111, 32, 50, 0, 104, 105, 11, 124, 2, 104]
   = Some [102, 111, 111, 32, 50, 0, 104, 105]"
  by (simp add: stored_decompress_def inflate_def adler32_def be_bytes_def upt_rec)

lemma char_of_letters:
  "char_of (98 :: nat) = CHR ''b''" "char_of (108 :: nat) = CHR ''l''"
  "char_of (111 :: nat) = CHR ''o''" "char_of (102 :: nat) = CHR ''f''"
  by code_simp+

lemma code_points_ascii:
  "\<forall>c \<in> set s. \<not> cont (of_char c) \<Longrightarrow> code_points s = map (\<lambda>c. [c]) s"
proof (induction s)
  case Nil
  then show ?case by simp
next
  case (Cons a s)
  then have "takeWhile (\<lambda>d. cont (of_char d)) s = []" "dropWhile (\<lambda>d. cont (of_char d)) s = s"
    by (cases s; simp)+
  with Cons show ?case by simp
qed

lemma str_take_ascii: "\<forall>c \<in> set s. \<not> cont (of_char c) \<Longrightarrow> str_take n s = take n s"
  by (simp add: str_take_def code_points_ascii take_map)

lemma str_drop_ascii: "\<forall>c \<in> set s. \<not> cont (of_char c) \<Longrightarrow> str_drop n s = drop n s"
  by (simp add: str_drop_def code_points_ascii drop_map)

lemma components_name:
  "CHR ''/'' \<notin> set c \<Longrightarrow> c \<noteq> [] \<Longrightarrow> c \<noteq> ''.'' \<Longrightarrow> components c = [c]"
  by (simp add: components_def split_all_none)

lemma joinpath_name:
  "CHR ''/'' \<notin> set c \<Longrightarrow> c \<noteq> [] \<Longrightarrow> c \<noteq> ''.'' \<Longrightarrow> joinpath p c = p @ [c]"
  by (cases c) (auto simp: joinpath_def components_name)

lemma object_path_eq:
  "object_path parent sha
   = joinpath (joinpath (parent @ [''.git'', ''objects'']) (str_take 2 sha)) (str_drop 2 sha)"
  by (simp add: object_path_def joinpath_name)

text \<open>
  Against C4 as stated: a stored object whose header is \<open>blob xyz\<close>, with a length that is
  no number, and one whose header is \<open>foo 2\<close>, with a kind that is none of the four, are both
  read without error.  The files hold the \<open>zlib\<close> streams of \<open>blob xyz\<close>, a zero byte and
  \<open>hi\<close>, and of \<open>foo 2\<close>, a zero byte and \<open>hi\<close>.
\<close>

theorem read_object_unchecked_header:
  "read_object stored_lib [''repo''] ''ab01''
     [[''repo'', ''.git'', ''objects'', ''ab'', ''01''] \<mapsto>
        Regular [120, 1, 1, 11, 0, 244, 255, 98, 108, 111, 98, 32, 120, 121, 122, 0, 104, 105,
                 24, 158, 3, 252]]
   = Inr (''blob'', [104, 105])
   \<and> read_object stored_lib [''repo''] ''ab02''
       [[''repo'', ''.git'', ''objects'', ''ab'', ''02''] \<mapsto>
          Regular [120, 1, 1, 8, 0, 247, 255, 102, 111, 111, 32, 50, 0, 104, 105, 11, 124, 2,
                   104]]
     = Inr (''foo'', [104, 105])"
proof -
  have "zlib_decompress stored_lib = stored_decompress" by (simp add: stored_lib_def)
  moreover have "object_path [''repo''] ''ab01'' = [''repo'', ''.git'', ''objects'', ''ab'', ''01'']"
    "object_path [''repo''] ''ab02'' = [''repo'', ''.git'', ''objects'', ''ab'', ''02'']"
    by (simp_all add: object_path_eq str_take_ascii str_drop_ascii cont_def joinpath_name)
  ultimately show ?thesis
    by (simp add: read_object_eq read_bytes_def stored_decompress_blob_xyz
          stored_decompress_foo_2 char_of_letters)
qed

text \<open>
  The paths that \<open>read_object\<close> reads in the repository \<open>repo\<close> that holds the one object
  file \<open>ab/cdef\<close>.  The hashes \<open>abcdef\<close> and \<open>ab./cdef\<close> name that file.  The hash \<open>ab\<close> and
  the empty hash name directories, \<open>abcdef/x\<close> goes through the file, \<open>ab/cdef\<close> is the
  absolute path \<open>/cdef\<close>, and nothing is at \<open>ab/zz\<close>; a hash with a zero character and one
  of 302 characters are refused.
\<close>

lemma object_path_examples:
  "object_path [''repo''] ''abcdef'' = [''repo'', ''.git'', ''objects'', ''ab'', ''cdef'']"
  "object_path [''repo''] ''ab./cdef'' = [''repo'', ''.git'', ''objects'', ''ab'', ''cdef'']"
  "object_path [''repo''] ''ab'' = [''repo'', ''.git'', ''objects'', ''ab'']"
  "object_path [''repo''] [] = [''repo'', ''.git'', ''objects'']"
  "object_path [''repo''] ''abcdef/x'' = [''repo'', ''.git'', ''objects'', ''ab'', ''cdef'', ''x'']"
  "object_path [''repo''] ''ab/cdef'' = [''/'', ''cdef'']"
  "object_path [''repo''] ''abzz'' = [''repo'', ''.git'', ''objects'', ''ab'', ''zz'']"
  "object_path [''repo''] [CHR ''a'', CHR ''b'', CHR 0x00]
   = [''repo'', ''.git'', ''objects'', ''ab'', [CHR 0x00]]"
  by (simp_all add: object_path_eq str_take_ascii str_drop_ascii cont_def joinpath_def
        components_def split_all_def)

lemma object_path_long:
  "object_path [''repo''] (''ab'' @ replicate 300 CHR ''c'')
   = [''repo'', ''.git'', ''objects'', ''ab'', replicate 300 CHR ''c'']"
proof -
  have "\<forall>c \<in> set (''ab'' @ replicate 300 CHR ''c''). \<not> cont (of_char c)"
    by (auto simp: cont_def)
  then have "str_take 2 (''ab'' @ replicate 300 CHR ''c'') = ''ab''"
    "str_drop 2 (''ab'' @ replicate 300 CHR ''c'') = replicate 300 CHR ''c''"
    by (simp_all only: str_take_ascii str_drop_ascii) simp_all
  moreover have "joinpath p (replicate 300 CHR ''c'') = p @ [replicate 300 CHR ''c'']" for p
  proof (rule joinpath_name)
    show "CHR ''/'' \<notin> set (replicate 300 CHR ''c'')" by simp
    have "length (replicate 300 CHR ''c'') = 300" by simp
    then show "replicate 300 CHR ''c'' \<noteq> []" "replicate 300 CHR ''c'' \<noteq> ''.''"
      by (fastforce, fastforce)
  qed
  ultimately show ?thesis
    by (simp add: object_path_eq joinpath_name)
qed

lemma read_object_paths:
  "read_object stored_lib [''repo''] ''abcdef'' (posix one_object []) = Inr (''blob'', [104, 105])"
  "read_object stored_lib [''repo''] ''ab./cdef'' (posix one_object []) = Inr (''blob'', [104, 105])"
  "read_object stored_lib [''repo''] ''ab'' (posix one_object []) = Inl IsADirectoryError"
  "read_object stored_lib [''repo''] [] (posix one_object []) = Inl IsADirectoryError"
  "read_object stored_lib [''repo''] ''abcdef/x'' (posix one_object []) = Inl NotADirectoryError"
  "read_object stored_lib [''repo''] ''ab/cdef'' (posix one_object []) = Inl FileNotFoundError"
  "read_object stored_lib [''repo''] ''abzz'' (posix one_object []) = Inl FileNotFoundError"
  "read_object stored_lib [''repo''] [CHR ''a'', CHR ''b'', CHR 0x00] (posix one_object [])
   = Inl ValueError"
  "read_object stored_lib [''repo''] (''ab'' @ replicate 300 CHR ''c'') (posix one_object [])
   = Inl OSError"
proof -
  have z: "zlib_decompress stored_lib = stored_decompress" by (simp add: stored_lib_def)
  show "read_object stored_lib [''repo''] ''abcdef'' (posix one_object []) = Inr (''blob'', [104, 105])"
    "read_object stored_lib [''repo''] ''ab./cdef'' (posix one_object []) = Inr (''blob'', [104, 105])"
    by (simp_all add: read_object_eq object_path_examples read_bytes_def posix_def fspath_def
          is_root_def one_object_def z stored_decompress_blob_xyz char_of_letters)
  show "read_object stored_lib [''repo''] ''ab'' (posix one_object []) = Inl IsADirectoryError"
    "read_object stored_lib [''repo''] [] (posix one_object []) = Inl IsADirectoryError"
    "read_object stored_lib [''repo''] ''abcdef/x'' (posix one_object []) = Inl NotADirectoryError"
    "read_object stored_lib [''repo''] ''ab/cdef'' (posix one_object []) = Inl FileNotFoundError"
    "read_object stored_lib [''repo''] ''abzz'' (posix one_object []) = Inl FileNotFoundError"
    "read_object stored_lib [''repo''] [CHR ''a'', CHR ''b'', CHR 0x00] (posix one_object [])
     = Inl ValueError"
    by (simp_all add: read_object_eq object_path_examples read_bytes_def posix_def fspath_def
          is_root_def one_object_def)
  have "length (replicate 300 CHR ''c'') \<noteq> length ''..''" by simp
  then have "replicate 300 CHR ''c'' \<noteq> ''..''" by fastforce
  then show "read_object stored_lib [''repo''] (''ab'' @ replicate 300 CHR ''c'')
               (posix one_object [])
             = Inl OSError"
    by (simp only: read_object_eq object_path_long)
      (simp add: read_bytes_def posix_def fspath_def is_root_def one_object_def)
qed

text \<open>
  C4, amended.  \<open>read_object\<close> reads the path \<open>parent/.git/objects/sha[:2]/sha[2:]\<close> as
  \<open>pathlib\<close> joins it, and raises what \<open>Path.read_bytes\<close> raises there:
  \<open>FileNotFoundError\<close> when nothing is at that path, and the exception of the operating
  system or of \<open>open\<close> when what is there cannot be read (a directory, a path through a
  file, a path with a zero character, a name too long).  When the file is read, it raises
  \<open>zlib.error\<close> when decompression fails, \<open>ValueError\<close> when the decompressed bytes hold
  no zero byte or the header before the first zero byte does not hold exactly one space,
  and \<open>UnicodeDecodeError\<close> when the bytes before that space are not UTF-8.  In every
  other case it returns those bytes, decoded, as the kind, and all that follows the first
  zero byte as the content: the length in the header and the kind are not looked at.
\<close>

theorem read_object_cases:
  "read_object L parent sha fs =
     (case fs (joinpath (joinpath (parent @ [''.git'', ''objects'']) (str_take 2 sha))
                 (str_drop 2 sha)) of
        None \<Rightarrow> Inl FileNotFoundError
      | Some (Raises e) \<Rightarrow> Inl e
      | Some (Regular bs) \<Rightarrow>
          (case zlib_decompress L bs of
             None \<Rightarrow> Inl ZlibError
           | Some raw \<Rightarrow>
               (let head = takeWhile (\<lambda>b. b \<noteq> 0) raw;
                    content = tl (dropWhile (\<lambda>b. b \<noteq> 0) raw);
                    ty = takeWhile (\<lambda>b. b \<noteq> 0x20) head
                in if 0 \<notin> set raw then Inl ValueError
                   else if count_list head 0x20 \<noteq> 1 then Inl ValueError
                   else if \<not> utf8 (map unat ty) then Inl UnicodeDecodeError
                   else Inr (map (\<lambda>b. char_of (unat b)) ty, content))))"
  by (simp add: read_object_eq read_bytes_def object_path_eq split: option.splits found.splits)

section \<open>Sizes as \<open>next_size\<close> reads them\<close>

lemma mask_7F: "(0x7F :: byte) = mask 7"
  by (simp add: mask_eq_exp_minus_1)

lemma and_7F_mod: "(w :: byte) AND 0x7F = w mod 128"
  unfolding mask_7F by (simp add: take_bit_eq_mask [symmetric] take_bit_eq_mod)

lemma unat_and_7F: "unat ((of_nat j :: byte) AND 0x7F) = j mod 128"
proof -
  have "unat ((of_nat j :: byte) mod 128) = (j mod 256) mod 128"
    by (simp add: unat_mod unat_of_nat)
  also have "\<dots> = j mod 128"
    by (simp add: mod_mod_cancel)
  finally show ?thesis by (simp add: and_7F_mod)
qed

lemma uint_and_7F: "uint ((of_nat j :: byte) AND 0x7F) = int (j mod 128)"
  using unat_and_7F [of j] by (simp only: uint_nat)

lemma and_80_odd: "((of_nat j :: byte) AND 0x80 \<noteq> 0) = odd (j div 128)"
proof -
  have "(0x80 :: byte) = push_bit 7 1" by simp
  then have "(of_nat j :: byte) AND 0x80 \<noteq> 0 \<longleftrightarrow> bit (of_nat j :: byte) 7"
    by (simp add: and_exp_eq_0_iff_not_bit bit_iff_and_push_bit_not_eq_0)
  also have "\<dots> \<longleftrightarrow> bit j 7" by (simp add: bit_of_nat_iff)
  also have "\<dots> \<longleftrightarrow> odd (j div 128)" by (simp add: bit_iff_odd)
  finally show ?thesis .
qed

lemma continuation_odd: "odd ((128 + n mod 128) div (128 :: nat))"
proof -
  have "n mod 128 < 128" by simp
  then have "(128 + n mod 128) div 128 = 1" by linarith
  then show ?thesis by simp
qed

lemma size_loop_stop: "prev AND 0x80 = 0 \<Longrightarrow> size_loop prev sz off bs = Inr (sz, bs)"
  by (cases bs) simp_all

lemma size_loop_varint:
  "odd (j div 128) \<Longrightarrow>
   size_loop (of_nat j) sz off (size_varint n @ rest) = Inr (sz + push_bit off (int n), rest)"
proof (induction n arbitrary: j sz off rule: size_varint.induct)
  case (1 n)
  from "1.prems" have more: "(of_nat j :: byte) AND 0x80 \<noteq> 0"
    by (simp add: and_80_odd)
  show ?case
  proof (cases "n < 128")
    case True
    then have last: "(of_nat n :: byte) AND 0x80 = 0"
      using and_80_odd [of n] by simp
    from True have "uint ((of_nat n :: byte) AND 0x7F) = int n"
      by (simp add: uint_and_7F)
    with True more show ?thesis
      by (simp add: size_varint.simps [of n] size_loop_stop [OF last])
  next
    case False
    let ?b = "128 + n mod 128"
    have odd: "odd (?b div 128)" by (rule continuation_odd)
    have low: "uint ((of_nat ?b :: byte) AND 0x7F) = int (n mod 128)"
      by (simp only: uint_and_7F mod_add_self1 mod_mod_trivial)
    have "size_loop (of_nat j) sz off (size_varint n @ rest)
          = size_loop (of_nat ?b) (sz + push_bit off (int (n mod 128))) (off + 7)
              (size_varint (n div 128) @ rest)"
      using False more low by (simp add: size_varint.simps [of n])
    also have "\<dots> = Inr (sz + push_bit off (int (n mod 128))
                         + push_bit (off + 7) (int (n div 128)), rest)"
      using "1.IH" [OF False odd] .
    finally have step: "size_loop (of_nat j) sz off (size_varint n @ rest)
          = Inr (sz + push_bit off (int (n mod 128))
                    + push_bit (off + 7) (int (n div 128)), rest)" .
    have "int (n mod 128) + 128 * int (n div 128) = int n"
      by (simp add: zmod_int zdiv_int)
    then have "push_bit off (int (n mod 128) + 128 * int (n div 128)) = push_bit off (int n)"
      by simp
    then have "push_bit off (int (n mod 128)) + push_bit (off + 7) (int (n div 128))
               = push_bit off (int n)"
      by (simp add: push_bit_eq_mult power_add algebra_simps)
    with step show ?thesis by (simp add: add.assoc)
  qed
qed

lemma next_size_varint: "next_size (size_varint n @ rest) = Inr (int n, rest)"
proof (cases "n < 128")
  case True
  then have last: "(of_nat n :: byte) AND 0x80 = 0"
    using and_80_odd [of n] by simp
  from True have "uint ((of_nat n :: byte) AND 0x7F) = int n"
    by (simp add: uint_and_7F)
  with True show ?thesis
    by (simp add: size_varint.simps [of n] size_loop_stop [OF last])
next
  case False
  let ?b = "128 + n mod 128"
  have odd: "odd (?b div 128)" by (rule continuation_odd)
  have low: "uint ((of_nat ?b :: byte) AND 0x7F) = int (n mod 128)"
    by (simp only: uint_and_7F mod_add_self1 mod_mod_trivial)
  have "int (n mod 128) + 128 * int (n div 128) = int n"
    by (simp add: zmod_int zdiv_int)
  then have "int (n mod 128) + push_bit 7 (int (n div 128)) = int n"
    by (simp add: push_bit_eq_mult)
  with False low size_loop_varint [OF odd, of "int (n mod 128)" 7 "n div 128" rest]
  show ?thesis
    by (simp add: size_varint.simps [of n])
qed

section \<open>The delta loop, instruction by instruction\<close>

lemma take_min_length: "take (min k (length ys)) ys = take k ys"
  by (simp add: min_def)

lemma slice_nonneg:
  "0 \<le> i \<Longrightarrow> 0 \<le> n \<Longrightarrow> slice xs i (i + n) = take (nat n) (drop (nat i) xs)"
proof -
  assume i: "0 \<le> i" and n: "0 \<le> n"
  let ?a = "min (nat i) (length xs)" and ?b = "min (nat (i + n)) (length xs)"
  from i n have s: "slice xs i (i + n) = take (?b - ?a) (drop ?a xs)"
    by (simp add: slice_def clamp_index_def Let_def)
  show ?thesis
  proof (cases "nat i \<le> length xs")
    case True
    with i n have "?b - ?a = min (nat n) (length xs - nat i)"
      by (auto simp: min_def nat_add_distrib)
    with True s take_min_length [of "nat n" "drop (nat i) xs"] show ?thesis
      by (simp add: min_absorb1)
  next
    case False
    with s show ?thesis by simp
  qed
qed

lemma slice_from_nonneg: "0 \<le> i \<Longrightarrow> slice_from xs i = drop (nat i) xs"
  by (simp add: slice_from_def clamp_index_def min_def)

lemma insert_ranges:
  "slice (c0 # rest) 1 (uint c0 + 1) = take (unat c0) rest"
  "slice_from (c0 # rest) (uint c0 + 1) = drop (unat c0) rest"
proof -
  have "0 \<le> uint c0" by simp
  then have "slice (c0 # rest) 1 (1 + uint c0) = take (nat (uint c0)) (drop (nat 1) (c0 # rest))"
    by (intro slice_nonneg) simp_all
  then show "slice (c0 # rest) 1 (uint c0 + 1) = take (unat c0) rest"
    by (simp add: add.commute)
  have "0 \<le> uint c0 + 1" by simp
  then have "slice_from (c0 # rest) (uint c0 + 1) = drop (nat (uint c0 + 1)) (c0 # rest)"
    by (rule slice_from_nonneg)
  moreover have "nat (uint c0 + 1) = Suc (unat c0)"
    by (simp add: nat_add_distrib)
  ultimately show "slice_from (c0 # rest) (uint c0 + 1) = drop (unat c0) rest"
    by simp
qed

lemma copy_field_nonneg:
  "0 \<le> acc \<Longrightarrow> copy_field c0 first idxs acc bs = Inr (v, bs') \<Longrightarrow> 0 \<le> v"
proof (induction idxs arbitrary: acc bs)
  case Nil
  then show ?case by simp
next
  case (Cons i idxs)
  show ?case
  proof (cases "c0 AND push_bit (first + i) 1 \<noteq> 0")
    case True
    with Cons.prems obtain b rest where bs: "bs = b # rest" by (cases bs) auto
    have "0 \<le> acc OR push_bit (i * 8) (uint b)"
      using Cons.prems(1) by simp
    moreover from True Cons.prems bs
    have "copy_field c0 first idxs (acc OR push_bit (i * 8) (uint b)) rest = Inr (v, bs')"
      by simp
    ultimately show ?thesis by (rule Cons.IH)
  next
    case False
    with Cons.prems have "copy_field c0 first idxs acc bs = Inr (v, bs')" by simp
    with Cons.prems(1) show ?thesis by (rule Cons.IH)
  qed
qed

lemma copy_field_error: "copy_field c0 first idxs acc bs = Inl e \<Longrightarrow> e = IndexError"
proof (induction idxs arbitrary: acc bs)
  case Nil
  then show ?case by simp
next
  case (Cons i idxs)
  then show ?case
    by (cases bs) (auto split: if_splits)
qed

lemma size_loop_error: "size_loop prev sz off bs = Inl e \<Longrightarrow> e = IndexError"
  by (induction prev sz off bs rule: size_loop.induct) (auto split: if_splits)

lemma next_size_error: "next_size bs = Inl e \<Longrightarrow> e = IndexError"
  by (cases bs) (auto dest: size_loop_error)

lemma delta_loop_error: "delta_loop base_content content target = Inl e \<Longrightarrow> e = IndexError"
proof (induction base_content content target rule: delta_loop.induct)
  case (1 base_content target_content)
  then show ?case by simp
next
  case (2 base_content c0 rest target_content)
  show ?case
  proof (cases "c0 AND 0x80 \<noteq> 0")
    case False
    with "2.prems" "2.IH"(2) show ?thesis by simp
  next
    case True
    show ?thesis
    proof (cases "copy_field c0 0 [0..<4] 0 rest")
      case (Inl e1)
      with True "2.prems" show ?thesis by (auto dest: copy_field_error)
    next
      case (Inr p)
      obtain offset rest1 where p: "p = (offset, rest1)" by (cases p)
      show ?thesis
      proof (cases "copy_field c0 4 [0..<3] 0 rest1")
        case (Inl e2)
        with True Inr p "2.prems" show ?thesis by (auto dest: copy_field_error)
      next
        case q: (Inr q)
        obtain sz rest2 where q2: "q = (sz, rest2)" by (cases q)
        from True Inr p q q2 "2.prems"
        have "delta_loop base_content rest2
                (target_content @ slice base_content offset (offset + sz)) = Inl e"
          by simp
        with "2.IH"(1) [OF True Inr p [symmetric] q q2 [symmetric]] show ?thesis .
      qed
    qed
  qed
qed

lemma resolve_delta_error: "resolve_delta base_content content = Inl e \<Longrightarrow> e = IndexError"
  by (auto simp: resolve_delta_def split: sum.splits dest: next_size_error delta_loop_error)

lemma delta_loop_copy:
  assumes "c0 AND 0x80 \<noteq> 0"
    and "copy_field c0 0 [0..<4] 0 rest = Inr (offset, rest1)"
    and "copy_field c0 4 [0..<3] 0 rest1 = Inr (sz, rest2)"
  shows "delta_loop base_content (c0 # rest) target
         = delta_loop base_content rest2
             (target @ take (nat sz) (drop (nat offset) base_content))"
proof -
  have "0 \<le> offset" "0 \<le> sz"
    using assms(2,3) copy_field_nonneg [of 0] by blast+
  then have "slice base_content offset (offset + sz)
             = take (nat sz) (drop (nat offset) base_content)"
    by (rule slice_nonneg)
  with assms show ?thesis by simp
qed

lemma delta_loop_insert:
  "c0 AND 0x80 = 0 \<Longrightarrow>
   delta_loop base_content (c0 # rest) target
   = delta_loop base_content (drop (unat c0) rest) (target @ take (unat c0) rest)"
  by (simp add: insert_ranges)

section \<open>A delta scenario\<close>

lemma delta_loop_fox:
  "delta_loop (encode ''The quick brown fox'')
     ([0x91, 4, 5, 5] @ encode ''slow '' @ [0x91, 10, 9]) []
   = Inr (encode ''quickslow brown fox'')"
  by (simp add: encode_def slice_def slice_from_def clamp_index_def upt_rec)

lemma delta_loop_fox6:
  "delta_loop (encode ''The quick brown fox'')
     ([0x91, 4, 6, 5] @ encode ''slow '' @ [0x91, 10, 9]) []
   = Inr (encode ''quick slow brown fox'')"
  by (simp add: encode_def slice_def slice_from_def clamp_index_def upt_rec)

lemma resolve_delta_sizes:
  "resolve_delta base_content (size_varint a @ size_varint b @ ops) = delta_loop base_content ops []"
  by (simp add: resolve_delta_def next_size_varint)

text \<open>
  Against C3 as stated: on the base \<open>The quick brown fox\<close>, the instructions that copy 5
  bytes from offset 4, insert \<open>slow \<close> and copy 9 bytes from offset 10, after the declared
  sizes 19 and 20, do not give \<open>quick slow brown fox\<close>.  Each copy instruction is written
  with one offset byte and one size byte (\<open>0x91\<close>).
\<close>

theorem delta_scenario_as_stated:
  "resolve_delta (encode ''The quick brown fox'')
     ([0x13, 0x14, 0x91, 4, 5, 5] @ encode ''slow '' @ [0x91, 10, 9])
   \<noteq> Inr (encode ''quick slow brown fox'')"
proof -
  have "size_varint 19 = [0x13]" "size_varint 20 = [0x14]"
    by (simp_all add: size_varint.simps)
  then have "resolve_delta (encode ''The quick brown fox'')
     ([0x13, 0x14, 0x91, 4, 5, 5] @ encode ''slow '' @ [0x91, 10, 9])
     = Inr (encode ''quickslow brown fox'')"
    using resolve_delta_sizes [of "encode ''The quick brown fox''" 19 20
        "[0x91, 4, 5, 5] @ encode ''slow '' @ [0x91, 10, 9]"] delta_loop_fox
    by simp
  then show ?thesis by (simp add: encode_def)
qed

text \<open>
  C3, amended.  Those instructions give \<open>quickslow brown fox\<close>: the first copy takes the
  five bytes \<open>quick\<close> and not the space after them.  This holds whatever the two declared
  sizes are.  With a first copy of 6 bytes, the result is \<open>quick slow brown fox\<close>.
\<close>

theorem delta_scenario:
  "resolve_delta (encode ''The quick brown fox'')
     (size_varint a @ size_varint b @ [0x91, 4, 5, 5] @ encode ''slow '' @ [0x91, 10, 9])
   = Inr (encode ''quickslow brown fox'')
   \<and> resolve_delta (encode ''The quick brown fox'')
       (size_varint a @ size_varint b @ [0x91, 4, 6, 5] @ encode ''slow '' @ [0x91, 10, 9])
     = Inr (encode ''quick slow brown fox'')"
  by (simp only: resolve_delta_sizes delta_loop_fox delta_loop_fox6)

section \<open>The declared sizes of a delta\<close>

lemma resolve_delta_parsed:
  "next_size content = Inr (s, content1) \<Longrightarrow> next_size content1 = Inr (t, ops) \<Longrightarrow>
   resolve_delta base_content content = delta_loop base_content ops []"
  by (simp add: resolve_delta_def)

text \<open>
  C10.  The target that the resolver builds depends on the base and on the instructions
  only.  Two delta streams that start with any two sizes each, and go on with the same
  instructions, resolve to the same result and leave the same files; the sizes are read
  and dropped, never compared with the base or the target.
\<close>

theorem declared_sizes_ignored:
  assumes "next_size d = Inr (s, r)" and "next_size r = Inr (t, ops)"
    and "next_size d' = Inr (s', r')" and "next_size r' = Inr (t', ops)"
  shows "resolve_delta base_content d = delta_loop base_content ops []
         \<and> resolve_delta base_content d' = resolve_delta base_content d
         \<and> store_delta L parent base_content d' fs = store_delta L parent base_content d fs
         \<and> resolve_delta base_content (size_varint a @ size_varint b @ ops)
             = resolve_delta base_content d"
  using assms
  by (simp add: resolve_delta_parsed [of d s r t ops] resolve_delta_parsed [of d' s' r' t' ops]
        store_delta_def resolve_delta_sizes)

theorem declared_sizes_ignored_witness:
  "next_size ([0x13, 0x14] @ [0x91, 1, 2]) = Inr (19, [0x14] @ [0x91, 1, 2])
   \<and> next_size ([0x14] @ [0x91, 1, 2]) = Inr (20, [0x91, 1, 2])
   \<and> next_size ([0x00, 0xFF, 0x01] @ [0x91, 1, 2]) = Inr (0, [0xFF, 0x01] @ [0x91, 1, 2])
   \<and> next_size ([0xFF, 0x01] @ [0x91, 1, 2]) = Inr (255, [0x91, 1, 2])
   \<and> resolve_delta (encode ''abc'') ([0x13, 0x14] @ [0x91, 1, 2])
       = delta_loop (encode ''abc'') [0x91, 1, 2] []
   \<and> resolve_delta (encode ''abc'') ([0x00, 0xFF, 0x01] @ [0x91, 1, 2])
       = resolve_delta (encode ''abc'') ([0x13, 0x14] @ [0x91, 1, 2])
   \<and> store_delta stored_lib [''repo''] (encode ''abc'') ([0x00, 0xFF, 0x01] @ [0x91, 1, 2]) Map.empty
       = store_delta stored_lib [''repo''] (encode ''abc'') ([0x13, 0x14] @ [0x91, 1, 2]) Map.empty
   \<and> resolve_delta (encode ''abc'') ([0x00, 0xFF, 0x01] @ [0x91, 1, 2]) = Inr (encode ''bc'')"
proof -
  have h1: "next_size ([0x13, 0x14] @ [0x91, 1, 2]) = Inr (19, [0x14] @ [0x91, 1, 2])"
    and h2: "next_size ([0x14] @ [0x91, 1, 2]) = Inr (20, [0x91, 1, 2])"
    and h3: "next_size ([0x00, 0xFF, 0x01] @ [0x91, 1, 2]) = Inr (0, [0xFF, 0x01] @ [0x91, 1, 2])"
    and h4: "next_size ([0xFF, 0x01] @ [0x91, 1, 2]) = Inr (255, [0x91, 1, 2])"
    by simp_all
  have run: "delta_loop (encode ''abc'') [0x91, 1, 2] [] = Inr (encode ''bc'')"
    by (simp add: encode_def slice_def clamp_index_def upt_rec)
  from declared_sizes_ignored [OF h1 h2 h3 h4, of "encode ''abc''" stored_lib "[''repo'']" Map.empty 0 0]
    h1 h2 h3 h4 run
  show ?thesis by simp
qed

section \<open>Lines of the fetch response\<close>














section \<open>Entries that are no object and no \<open>ref_delta\<close>\<close>

lemma ofs_delta_header:
  assumes "uint (drop_bit 4 (b0 AND 0x70)) = 6"
    and "size_loop b0 (uint (b0 AND 0x0F)) 4 bs = Inr (sz, rest)"
  shows "next_size_type (b0 # bs) = Inr (''ofs_delta'', sz, rest)"
  using assms by (simp add: type_map_def)

lemma unpack_entry_other:
  assumes "next_size_type pack_file = Inr (ty, sz, rest)"
    and "ty \<notin> {''commit'', ''tree'', ''blob'', ''tag''}" and "ty \<noteq> ''ref_delta''"
  shows "unpack_entry L parent pack_file fs = Inr (rest, fs)"
  using assms by (simp add: unpack_entry_def)

text \<open>
  The turn of the loop for an entry whose type bits are those of \<open>ofs_delta\<close>: it takes
  the header and nothing else, and raises nothing.  The offset and the compressed data of
  the entry are still at the front of the pack bytes when the next turn starts.
\<close>

lemma ofs_delta_turn:
  assumes "uint (drop_bit 4 (b0 AND 0x70)) = 6"
    and "size_loop b0 (uint (b0 AND 0x0F)) 4 bs = Inr (sz, rest)"
  shows "unpack_entry L parent (b0 # bs) fs = Inr (rest, fs)"
    and "unpack_objects L parent (Suc n) (b0 # bs) fs = unpack_objects L parent n rest fs"
proof -
  have "next_size_type (b0 # bs) = Inr (''ofs_delta'', sz, rest)"
    using assms by (rule ofs_delta_header)
  then show step: "unpack_entry L parent (b0 # bs) fs = Inr (rest, fs)"
    by (rule unpack_entry_other) simp_all
  then show "unpack_objects L parent (Suc n) (b0 # bs) fs = unpack_objects L parent n rest fs"
    by simp
qed

lemma stored_decompressobj_delta:
  "stored_decompressobj
     ([120, 1, 1, 5, 0, 250, 255, 3, 2, 145, 1, 2, 1, 211, 0, 154]
      @ [0x32, 120, 1, 1, 2, 0, 253, 255, 104, 105, 1, 59, 0, 210])
   = Some ([3, 2, 145, 1, 2], [0x32, 120, 1, 1, 2, 0, 253, 255, 104, 105, 1, 59, 0, 210])"
  by (simp add: stored_decompressobj_def inflate_def adler32_def be_bytes_def upt_rec)

text \<open>
  C5, as the code runs.  A pack of two entries: an \<open>ofs_delta\<close> entry (header \<open>0x65\<close>,
  offset byte \<open>0x32\<close>, then the \<open>zlib\<close> stream of the delta instructions
  \<open>03 02 91 01 02\<close>) and the blob \<open>hi\<close> (header \<open>0x32\<close>, then its \<open>zlib\<close> stream).  No error
  is raised.  The first turn takes the header \<open>0x65\<close> only; the second turn reads the offset
  byte \<open>0x32\<close> as the header of a blob and stores the delta instructions as a blob.  The
  two turns are then over: the entry of the blob \<open>hi\<close> is left unread, and the one object
  written is the blob of the delta instructions.  When the pack ends with the header of an
  \<open>ofs_delta\<close> entry, the turn after it fails on the missing byte with \<open>IndexError\<close>; and a
  pack of that one entry is taken without any error, its bytes after the header left over
  and no file written.
\<close>

theorem ofs_delta_desync:
  "unpack_objects stored_lib [''repo''] 2
     ([0x65, 0x32] @ [120, 1, 1, 5, 0, 250, 255, 3, 2, 145, 1, 2, 1, 211, 0, 154]
      @ [0x32, 120, 1, 1, 2, 0, 253, 255, 104, 105, 1, 59, 0, 210])
     Map.empty
   = Inr ([0x32, 120, 1, 1, 2, 0, 253, 255, 104, 105, 1, 59, 0, 210],
          snd (write_object stored_lib [''repo''] ''blob'' [3, 2, 145, 1, 2] Map.empty))
   \<and> unpack_objects stored_lib [''repo''] 2 [0x60] Map.empty = Inl IndexError
   \<and> unpack_objects stored_lib [''repo''] 1 [0x60, 1, 2, 3] Map.empty
     = Inr ([1, 2, 3], Map.empty)"
proof -
  let ?z = "[120, 1, 1, 5, 0, 250, 255, 3, 2, 145, 1, 2, 1, 211, 0, 154] :: bytes"
  let ?hi = "[0x32, 120, 1, 1, 2, 0, 253, 255, 104, 105, 1, 59, 0, 210] :: bytes"
  have lib: "zlib_decompressobj stored_lib = stored_decompressobj"
    by (simp add: stored_lib_def)
  have t1: "unpack_entry stored_lib [''repo''] (0x65 # [0x32] @ ?z @ ?hi) Map.empty
            = Inr ([0x32] @ ?z @ ?hi, Map.empty)"
    by (rule ofs_delta_turn(1) [where sz = 5]) simp_all
  have "next_size_type ([0x32] @ ?z @ ?hi) = Inr (''blob'', 2, ?z @ ?hi)"
    by (simp add: type_map_def)
  then have t2: "unpack_entry stored_lib [''repo''] ([0x32] @ ?z @ ?hi) Map.empty
                 = Inr (?hi, snd (write_object stored_lib [''repo''] ''blob'' [3, 2, 145, 1, 2]
                                    Map.empty))"
    using stored_decompressobj_delta by (simp add: unpack_entry_def lib)
  have two: "(2 :: nat) = Suc (Suc 0)" by simp
  have a: "unpack_objects stored_lib [''repo''] 2 ([0x65, 0x32] @ ?z @ ?hi) Map.empty
           = Inr (?hi, snd (write_object stored_lib [''repo''] ''blob'' [3, 2, 145, 1, 2]
                              Map.empty))"
    using t1 t2 unfolding two by simp
  have "unpack_entry stored_lib [''repo''] [0x60] Map.empty = Inr ([], Map.empty)"
    by (rule ofs_delta_turn(1) [where sz = 0]) simp_all
  then have c: "unpack_objects stored_lib [''repo''] 2 [0x60] Map.empty = Inl IndexError"
    unfolding two by (simp add: unpack_entry_def)
  have "unpack_entry stored_lib [''repo''] [0x60, 1, 2, 3] Map.empty = Inr ([1, 2, 3], Map.empty)"
    by (rule ofs_delta_turn(1) [where sz = 0]) simp_all
  then have d: "unpack_objects stored_lib [''repo''] 1 [0x60, 1, 2, 3] Map.empty
                = Inr ([1, 2, 3], Map.empty)"
    unfolding One_nat_def by simp
  from a c d show ?thesis by (intro conjI)
qed

section \<open>Hexadecimal digits, written and read\<close>

lemma hex_digit_values:
  "d < 16 \<Longrightarrow> hex_value (hex_digit d) = Some d \<and> \<not> is_space (hex_digit d)"
proof -
  assume "d < 16"
  then have "d \<in> set [0..<16]" by simp
  moreover have "\<forall>d \<in> set [0..<16]. hex_value (hex_digit d) = Some d \<and> \<not> is_space (hex_digit d)"
    by (simp add: upt_rec hex_digit_def hex_value_def is_space_def)
  ultimately show ?thesis by blast
qed

lemma byte_nibbles: "of_nat (16 * (unat b div 16) + unat b mod 16) = (b :: byte)"
  by simp

lemma fromhex_hex: "fromhex (hex bs) = Inr bs"
proof (induction bs)
  case Nil
  then show ?case by (simp add: hex_def)
next
  case (Cons b bs)
  have "unat b < 2 ^ LENGTH(8)" by (rule unsigned_less)
  then have hi: "unat b div 16 < 16" by simp
  have lo: "unat b mod 16 < 16" by simp
  have "hex (b # bs) = hex_digit (unat b div 16) # hex_digit (unat b mod 16) # hex bs"
    by (simp add: hex_def)
  with Cons hex_digit_values [OF hi] hex_digit_values [OF lo] show ?case
    by (simp add: byte_nibbles del: of_nat_add of_nat_mult)
qed

lemma hex_zeros: "hex (replicate n 0) = replicate (2 * n) CHR ''0''"
  by (induction n) (simp_all add: hex_def hex_digit_def)

section \<open>The walk builds the tree of the specification\<close>

lemma b_entries_entry_of: "b_entries (map (entry_of L) cs) = Inr (concat (map (entry_bytes L) cs))"
  by (induction cs) (simp_all add: entry_of_def entry_bytes_def fromhex_hex)

lemma skipped_visible: "(\<not> skipped exclude_git name) = visible name"
  by (auto simp: skipped_def visible_def)

lemma kept_tree_entries:
  "filter (\<lambda>child. \<not> skipped exclude_git (fst child)) (sort_key fst children)
   = tree_entries children"
  by (simp add: tree_entries_def skipped_visible filter_sort)

lemma build_digest_Dir:
  "build_digest L (Dir children)
   = sha1 L (header ''tree'' (concat (map (entry_bytes L) (tree_entries children)))
             @ concat (map (entry_bytes L) (tree_entries children)))"
proof -
  have "(\<lambda>(n, c). encode (mode_of c) @ [0x20] @ encode n @ [0] @ build_digest L c) = entry_bytes L"
    by (auto simp: entry_bytes_def)
  then show ?thesis by (simp add: Let_def)
qed

lemma toEntry_refines:
  "walkable nd \<Longrightarrow>
   \<exists>fs'. toEntry L parent exclude_git name nd fs
          = Inr ((mode_of nd, name, hex (build_digest L nd)), fs')"
  and toEntries_refines:
  "\<forall>(n, c) \<in> set cs. walkable c \<Longrightarrow>
   \<exists>fs'. toEntries L parent cs fs = Inr (map (entry_of L) cs, fs')"
proof (induction L parent exclude_git name nd fs and L parent cs fs
       rule: toEntry_toEntries.induct)
  case (1 L parent exclude_git name fs)
  show ?case using hex_zeros [of 20] by (simp add: mode_of_def)
next
  case (2 L parent exclude_git name bs fs)
  show ?case by (simp add: mode_of_def write_object_def Let_def)
next
  case (3 L parent exclude_git name children fs)
  from "3.prems" have "\<forall>(n, c) \<in> set (tree_entries children). walkable c" by simp
  with "3.IH" obtain fs1 where
    "toEntries L parent (tree_entries children) fs
     = Inr (map (entry_of L) (tree_entries children), fs1)"
    unfolding kept_tree_entries by blast
  then show ?case
    by (simp add: kept_tree_entries b_entries_entry_of build_digest_Dir mode_of_def
          write_object_def Let_def del: build_digest.simps)
next
  case (4 L parent exclude_git name e fs)
  then show ?case by simp
next
  case (5 L parent fs)
  show ?case by simp
next
  case (6 L parent n c children fs)
  from "6.prems" have wc: "walkable c" and wcs: "\<forall>(n, c) \<in> set children. walkable c"
    by simp_all
  from "6.IH"(1) [OF wc] obtain fs1 where
    e: "toEntry L parent False n c fs = Inr ((mode_of c, n, hex (build_digest L c)), fs1)"
    by blast
  from "6.IH"(2) [OF e refl wcs] obtain fs2 where
    "toEntries L parent children fs1 = Inr (map (entry_of L) children, fs2)"
    by blast
  with e show ?case by (simp add: entry_of_def)
qed

lemma toEntry_fails:
  "\<not> walkable nd \<Longrightarrow> \<exists>e. toEntry L parent exclude_git name nd fs = Inl e"
  and toEntries_fails:
  "\<not> (\<forall>(n, c) \<in> set cs. walkable c) \<Longrightarrow> \<exists>e. toEntries L parent cs fs = Inl e"
proof (induction L parent exclude_git name nd fs and L parent cs fs
       rule: toEntry_toEntries.induct)
  case (1 L parent exclude_git name fs)
  then show ?case by simp
next
  case (2 L parent exclude_git name bs fs)
  then show ?case by simp
next
  case (3 L parent exclude_git name children fs)
  from "3.prems" have "\<not> (\<forall>(n, c) \<in> set (tree_entries children). walkable c)" by simp
  with "3.IH" obtain e where "toEntries L parent (tree_entries children) fs = Inl e"
    unfolding kept_tree_entries by blast
  then show ?case by (simp add: kept_tree_entries)
next
  case (4 L parent exclude_git name e fs)
  show ?case by simp
next
  case (5 L parent fs)
  then show ?case by simp
next
  case (6 L parent n c children fs)
  show ?case
  proof (cases "walkable c")
    case False
    from "6.IH"(1) [OF False] obtain e where "toEntry L parent False n c fs = Inl e"
      by blast
    then show ?thesis by simp
  next
    case True
    then obtain fs1 where
      e: "toEntry L parent False n c fs = Inr ((mode_of c, n, hex (build_digest L c)), fs1)"
      using toEntry_refines by blast
    from True "6.prems" have "\<not> (\<forall>(n, c) \<in> set children. walkable c)" by simp
    from "6.IH"(2) [OF e refl this] obtain e' where
      "toEntries L parent children fs1 = Inl e'"
      by blast
    with e show ?thesis by simp
  qed
qed


lemma write_tree_fails:
  "\<not> walkable cwd \<Longrightarrow> \<exists>e. write_tree L parent cwd_name cwd fs = Inl e"
proof -
  assume "\<not> walkable cwd"
  then obtain e where "toEntry L parent True cwd_name cwd fs = Inl e"
    using toEntry_fails by blast
  then show ?thesis by (simp add: write_tree_def)
qed

section \<open>The entries of a tree\<close>








section \<open>Order and exclusion in a tree\<close>



section \<open>What is cut short without an error\<close>

lemma and_7F_no_top: "(d0 AND 0x7F) AND 0x80 = (0 :: byte)"
proof -
  have "(0x7F :: byte) AND 0x80 = 0" by simp
  then show ?thesis by (simp add: and.assoc)
qed

text \<open>
  A copy instruction appends the bytes of the base from \<open>offset\<close> on that there are, at most
  \<open>size\<close> of them, and an insert instruction the bytes that follow it, at most as many as
  it says: neither raises when there are fewer.
\<close>

lemma delta_copy_clipped:
  assumes "c0 AND 0x80 \<noteq> 0"
    and "copy_field c0 0 [0..<4] 0 rest = Inr (offset, rest1)"
    and "copy_field c0 4 [0..<3] 0 rest1 = Inr (sz, rest2)"
  shows "delta_loop base_content (c0 # rest) target
         = delta_loop base_content rest2
             (target @ take (nat sz) (drop (nat offset) base_content))"
    and "length (take (nat sz) (drop (nat offset) base_content))
         = min (nat sz) (length base_content - nat offset)"
proof -
  show "delta_loop base_content (c0 # rest) target
         = delta_loop base_content rest2
             (target @ take (nat sz) (drop (nat offset) base_content))"
    using assms by (rule delta_loop_copy)
  show "length (take (nat sz) (drop (nat offset) base_content))
        = min (nat sz) (length base_content - nat offset)"
    by simp
qed

lemma delta_insert_clipped:
  "delta_loop base_content ((d0 AND 0x7F) # rest) target
   = delta_loop base_content (drop (unat (d0 AND 0x7F)) rest)
       (target @ take (unat (d0 AND 0x7F)) rest)"
  using and_7F_no_top by (rule delta_loop_insert)

text \<open>
  The exception of the resolver is \<open>IndexError\<close>, raised when the bytes of a size or of a
  copy instruction are missing.  A file that cannot be read gives the entry of forty
  zeros, and \<open>write_tree\<close> returns a hash exactly when no exception stops the walk.
\<close>

lemma resolve_delta_raises:
  "case resolve_delta base_content content of Inl e \<Rightarrow> e = IndexError | Inr t \<Rightarrow> True"
  using resolve_delta_error by (cases "resolve_delta base_content content") auto

lemma unreadable_file_entry:
  "toEntry L parent exclude_git name (File None) fs
   = Inr ((''100644'', name, replicate 40 CHR ''0''), fs)"
  by simp

lemma write_tree_result:
  "(\<exists>h fs'. write_tree L parent cwd_name cwd fs = Inr (h, fs')) = walkable cwd"
proof (cases "walkable cwd")
  case True
  then obtain fs' where
    "toEntry L parent True cwd_name cwd fs
     = Inr ((mode_of cwd, cwd_name, hex (build_digest L cwd)), fs')"
    using toEntry_refines by blast
  with True show ?thesis by (simp add: write_tree_def)
next
  case False
  then obtain e where "write_tree L parent cwd_name cwd fs = Inl e"
    using write_tree_fails by blast
  with False show ?thesis by simp
qed

text \<open>
  C9, as the code runs.  On the base \<open>abc\<close>, a delta that declares a target of 5 bytes and
  copies 5 bytes from offset 1 is resolved without any error to the 2 bytes \<open>bc\<close>, and
  those are stored as a blob.  A delta that inserts 5 bytes and holds 2 of them is
  resolved to those 2 bytes.
\<close>

theorem copy_past_end_of_base:
  "resolve_delta (encode ''abc'') [3, 5, 0x91, 1, 5] = Inr (encode ''bc'')
   \<and> length (encode ''bc'') = 2
   \<and> store_delta stored_lib [''repo''] (encode ''abc'') [3, 5, 0x91, 1, 5] Map.empty
     = Inr (snd (write_object stored_lib [''repo''] ''blob'' (encode ''bc'') Map.empty))
   \<and> resolve_delta (encode ''abc'') [3, 5, 5, 0x78, 0x79] = Inr (encode ''xy'')"
proof -
  have a: "resolve_delta (encode ''abc'') [3, 5, 0x91, 1, 5] = Inr (encode ''bc'')"
    by (simp add: resolve_delta_def encode_def slice_def clamp_index_def upt_rec)
  have b: "length (encode ''bc'') = 2" by (simp add: encode_def)
  have c: "store_delta stored_lib [''repo''] (encode ''abc'') [3, 5, 0x91, 1, 5] Map.empty
           = Inr (snd (write_object stored_lib [''repo''] ''blob'' (encode ''bc'') Map.empty))"
    by (simp only: store_delta_def a sum.case)
  have d: "resolve_delta (encode ''abc'') [3, 5, 5, 0x78, 0x79] = Inr (encode ''xy'')"
    by (simp add: resolve_delta_def encode_def slice_def slice_from_def clamp_index_def)
  from a b c d show ?thesis by (intro conjI)
qed

end
